theory Spec2Isabelle
  imports Main "HOL-Library.Sublist"
begin

section \<open>JavaScript strings\<close>

text \<open>
  A JavaScript string is modelled as a \<open>string\<close>: a list of code units, here the
  code units below 256 (ASCII and Latin-1), which covers every literal of the source.
\<close>

text \<open>\<open>String.prototype.startsWith\<close> is \<^const>\<open>prefix\<close> with the arguments swapped.\<close>

definition startsWith :: "string \<Rightarrow> string \<Rightarrow> bool" where
  "startsWith s pat = prefix pat s"

text \<open>\<open>String.prototype.includes\<close>: some position of \<open>s\<close> starts with \<open>pat\<close>.\<close>

fun str_includes :: "string \<Rightarrow> string \<Rightarrow> bool" where
  "str_includes [] pat = (pat = [])"
| "str_includes (c # cs) pat = (startsWith (c # cs) pat \<or> str_includes cs pat)"

text \<open>
  \<open>String.prototype.toLowerCase\<close> on code units below 256: the ASCII capitals and the
  Latin-1 capitals (all of \<open>0xC0..0xDE\<close> but the multiplication sign \<open>0xD7\<close>) move up by 32.
\<close>

definition lower_char :: "char \<Rightarrow> char" where
  "lower_char c =
     (let n = (of_char c :: nat)
      in if (65 \<le> n \<and> n \<le> 90) \<or> (192 \<le> n \<and> n \<le> 222 \<and> n \<noteq> 215)
         then char_of (n + 32) else c)"

definition toLowerCase :: "string \<Rightarrow> string" where
  "toLowerCase s = map lower_char s"

section \<open>The retry governor: \<open>withRetry\<close> (services/geminiService.ts)\<close>

text \<open>
  A value thrown by the wrapped operation, as far as \<open>withRetry\<close> looks at it:
  \<open>error?.message\<close> (\<open>None\<close> when the value is null or undefined or has no message) and
  \<open>error?.status\<close> (\<open>None\<close> when there is no numeric status).
\<close>

record js_error =
  err_message :: "string option"
  err_status :: "int option"

text \<open>What one invocation of the asynchronous operation settles to.\<close>

datatype 'a settled = Resolve 'a | Reject js_error

text \<open>
  How a call of \<open>withRetry\<close> ends: it returns a value or throws; \<open>lastError\<close> is
  undefined (\<open>None\<close>) until the first failure.
\<close>

datatype 'a completion = Returned 'a | Thrown "js_error option"

text \<open>
  The observable run: the completion, the number of invocations of the operation and the
  delays handed to \<open>setTimeout\<close>, in order, in milliseconds.
\<close>

record 'a retry_run =
  result :: "'a completion"
  calls :: nat
  sleeps :: "nat list"

text \<open>
  \<open>const errorMessage = error?.message?.toLowerCase() || "";\<close>
  \<open>const isRateLimit = errorMessage.includes('429') || errorMessage.includes('resource_exhausted') || error?.status === 429;\<close>
\<close>

definition errorMessage :: "js_error \<Rightarrow> string" where
  "errorMessage e = (case err_message e of None \<Rightarrow> [] | Some m \<Rightarrow> toLowerCase m)"

definition isRateLimit :: "js_error \<Rightarrow> bool" where
  "isRateLimit e =
     (str_includes (errorMessage e) ''429''
      \<or> str_includes (errorMessage e) ''resource_exhausted''
      \<or> err_status e = Some 429)"

text \<open>\<open>Math.pow(2, i) * 5000\<close>, exact in double precision for every \<open>i\<close> the loop reaches.\<close>

definition delay :: "nat \<Rightarrow> nat" where
  "delay i = 2 ^ i * 5000"

text \<open>
  The operation is given by what its successive invocations settle to: \<open>fn k\<close> is the
  outcome of invocation number \<open>k\<close> (from 0). The loop
  \<open>for (let i = 0; i < maxRetries; i++)\<close> carries \<open>lastError\<close> and the delays slept so
  far; invocation \<open>i\<close> happens in iteration \<open>i\<close>, so \<open>i\<close> also counts the calls made.
\<close>

function withRetry_loop ::
  "(nat \<Rightarrow> 'a settled) \<Rightarrow> nat \<Rightarrow> nat \<Rightarrow> js_error option \<Rightarrow> nat list \<Rightarrow> 'a retry_run" where
  "withRetry_loop fn maxRetries i lastError slept =
     (if i < maxRetries then
        (case fn i of
           Resolve v \<Rightarrow> \<lparr>result = Returned v, calls = Suc i, sleeps = slept\<rparr>
         | Reject error \<Rightarrow>
             if isRateLimit error
             then withRetry_loop fn maxRetries (Suc i) (Some error) (slept @ [delay i])
             else \<lparr>result = Thrown (Some error), calls = Suc i, sleeps = slept\<rparr>)
      else \<lparr>result = Thrown lastError, calls = i, sleeps = slept\<rparr>)"
  by pat_completeness auto
termination
  by (relation "measure (\<lambda>(fn, maxRetries, i, lastError, slept). maxRetries - i)") auto

definition withRetry :: "(nat \<Rightarrow> 'a settled) \<Rightarrow> nat \<Rightarrow> 'a retry_run" where
  "withRetry fn maxRetries = withRetry_loop fn maxRetries 0 None []"

text \<open>An invocation that fails with an error classified as rate-limited.\<close>

definition rate_limited_at :: "(nat \<Rightarrow> 'a settled) \<Rightarrow> nat \<Rightarrow> bool" where
  "rate_limited_at fn k = (case fn k of Resolve v \<Rightarrow> False | Reject e \<Rightarrow> isRateLimit e)"

text \<open>Two scripted operations: fail \<open>n\<close> times with \<open>e\<close> and then succeed, and fail always.\<close>

fun fails_then_succeeds :: "nat \<Rightarrow> js_error \<Rightarrow> 'a \<Rightarrow> nat \<Rightarrow> 'a settled" where
  "fails_then_succeeds n e v k = (if k < n then Reject e else Resolve v)"

fun always_fails :: "js_error \<Rightarrow> nat \<Rightarrow> 'a settled" where
  "always_fails e k = Reject e"

definition quota_error :: js_error where
  "quota_error = \<lparr>err_message = Some ''Quota exceeded: RESOURCE_EXHAUSTED'', err_status = Some 429\<rparr>"

definition bad_request :: js_error where
  "bad_request = \<lparr>err_message = Some ''Invalid argument'', err_status = Some 400\<rparr>"

definition resource_exhausted_spaced :: js_error where
  "resource_exhausted_spaced = \<lparr>err_message = Some ''Resource exhausted'', err_status = None\<rparr>"

section \<open>The model gateway and the refinement operation (services/geminiService.ts)\<close>

text \<open>
  The system instruction of a request. The code never inspects its prompts, so each is
  represented by its name; \<open>REFINE_INSTRUCTION\<close> is the literal instruction of
  \<open>refineLessonPlan\<close>.
\<close>

datatype instruction =
  PROMPT_ARCHITECT | PROMPT_ASSET_MANAGER | PROMPT_SHELL | PROMPT_CONTENT | PROMPT_LOGIC
  | REFINE_INSTRUCTION

text \<open>The parts of a request: \<open>{ text }\<close> or \<open>{ inlineData: { mimeType, data } }\<close>.\<close>

datatype part = Text string | InlineData string string

text \<open>
  The external service \<open>ai.models.generateContent\<close>: for an instruction and the parts
  sent, what the successive requests settle to; \<open>response.text\<close> may be undefined.
\<close>

type_synonym gateway = "instruction \<Rightarrow> part list \<Rightarrow> nat \<Rightarrow> string option settled"

text \<open>
  \<open>.replace(/^```html/, '')\<close> removes a leading fence and \<open>.replace(/```$/, '')\<close> a
  trailing one (without the \<open>m\<close> flag, \<open>^\<close> and \<open>$\<close> are the ends of the string).
\<close>

definition strip_leading_fence :: "string \<Rightarrow> string" where
  "strip_leading_fence s = (if prefix ''```html'' s then drop (length ''```html'') s else s)"

definition strip_trailing_fence :: "string \<Rightarrow> string" where
  "strip_trailing_fence s = (if suffix ''```'' s then take (length s - length ''```'') s else s)"

text \<open>
  The operation wrapped by \<open>refineLessonPlan\<close>; \<open>x || currentHtml\<close> yields
  \<open>currentHtml\<close> when \<open>x\<close> is undefined or the empty string.
\<close>

definition refine_request :: "string \<Rightarrow> string \<Rightarrow> part list" where
  "refine_request currentHtml userRequest =
     [Text (''HTML: '' @ currentHtml @ [CHR 0x0A, CHR 0x0A] @ ''REQUEST: '' @ userRequest)]"

definition refine_operation :: "gateway \<Rightarrow> string \<Rightarrow> string \<Rightarrow> nat \<Rightarrow> string settled" where
  "refine_operation ai currentHtml userRequest k =
     (case ai REFINE_INSTRUCTION (refine_request currentHtml userRequest) k of
        Reject error \<Rightarrow> Reject error
      | Resolve None \<Rightarrow> Resolve currentHtml
      | Resolve (Some text) \<Rightarrow>
          (let stripped = strip_trailing_fence (strip_leading_fence text)
           in Resolve (if stripped = [] then currentHtml else stripped)))"

definition refineLessonPlan :: "gateway \<Rightarrow> string \<Rightarrow> string \<Rightarrow> string retry_run" where
  "refineLessonPlan ai currentHtml userRequest =
     withRetry (refine_operation ai currentHtml userRequest) 5"

section \<open>The session state and \<open>handleRefine\<close> (App.tsx)\<close>

datatype view = InputView | Workspace

datatype role = User | Ai

record message =
  msg_role :: role
  msg_content :: string

record app_state =
  currentView :: view
  generatedHtml :: string
  isProcessing :: bool
  statusMessage :: string
  chatMessages :: "message list"

text \<open>
  \<open>error?.message?.includes('429') || error?.message?.includes('RESOURCE_EXHAUSTED')\<close>,
  on the thrown value (undefined when \<open>withRetry\<close> had nothing to rethrow).
\<close>

definition isQuotaError :: "js_error option \<Rightarrow> bool" where
  "isQuotaError error =
     (case error of
        None \<Rightarrow> False
      | Some e \<Rightarrow>
          (case err_message e of
             None \<Rightarrow> False
           | Some m \<Rightarrow> str_includes m ''429'' \<or> str_includes m ''RESOURCE_EXHAUSTED''))"

text \<open>
  \<open>handleRefine\<close> as a state transformer: the state setters run in the source's order,
  \<open>setGeneratedHtml\<close> only on the success path, \<open>setIsProcessing(false)\<close> in \<open>finally\<close>.
\<close>

definition handleRefine :: "gateway \<Rightarrow> app_state \<Rightarrow> string \<Rightarrow> app_state" where
  "handleRefine ai st request =
     (let st1 = st\<lparr>isProcessing := True,
                    statusMessage := ''Refining your lesson...'',
                    chatMessages := chatMessages st @ [\<lparr>msg_role = User, msg_content = request\<rparr>]\<rparr>
      in case result (refineLessonPlan ai (generatedHtml st) request) of
           Returned newHtml \<Rightarrow>
             st1\<lparr>generatedHtml := newHtml,
                 chatMessages := chatMessages st1 @
                   [\<lparr>msg_role = Ai, msg_content = ''Code updated! The preview has been refreshed.''\<rparr>],
                 isProcessing := False\<rparr>
         | Thrown error \<Rightarrow>
             st1\<lparr>chatMessages := chatMessages st1 @
                   [\<lparr>msg_role = Ai,
                     msg_content =
                       (if isQuotaError error
                        then ''Sorry, the AI is at its limit. Please wait a moment and then try sending your request again.''
                        else ''Sorry, I encountered an error while updating the code.'')\<rparr>],
                 isProcessing := False\<rparr>)"

text \<open>Scripted services for the examples: one that answers every request with a fixed
  text, one that always fails.\<close>

fun answers :: "string option \<Rightarrow> gateway" where
  "answers t i ps k = Resolve t"

fun refuses :: "js_error \<Rightarrow> gateway" where
  "refuses e i ps k = Reject e"

definition lesson_state :: app_state where
  "lesson_state = \<lparr>currentView = Workspace, generatedHtml = ''<html><body>Lesson</body></html>'',
     isProcessing = False, statusMessage = ''Initializing...'', chatMessages = []\<rparr>"

section \<open>The download file name: \<open>handleDownload\<close> (App.tsx)\<close>

text \<open>
  The flag \<open>i\<close> of a regular expression compares code units after canonicalising them
  with \<open>toUpperCase\<close>. On code units below 256 this moves the ASCII small letters and the
  Latin-1 small letters (\<open>0xE0..0xFE\<close> but the division sign \<open>0xF7\<close>) down by 32; the
  two remaining small letters, \<open>0xB5\<close> and \<open>0xFF\<close>, have no capital below 256 and
  match only themselves, as here.
\<close>

definition upper_char :: "char \<Rightarrow> char" where
  "upper_char c =
     (let n = (of_char c :: nat)
      in if (97 \<le> n \<and> n \<le> 122) \<or> (224 \<le> n \<and> n \<le> 254 \<and> n \<noteq> 247)
         then char_of (n - 32) else c)"

text \<open>The pattern \<open>pat\<close> matches, case-insensitively, at the start of the subject.\<close>

fun ci_prefix :: "string \<Rightarrow> string \<Rightarrow> bool" where
  "ci_prefix [] s = True"
| "ci_prefix (p # ps) [] = False"
| "ci_prefix (p # ps) (c # cs) = (upper_char p = upper_char c \<and> ci_prefix ps cs)"

text \<open>The dot of a regular expression matches every code unit but the line terminators.\<close>

definition line_terminator :: "char \<Rightarrow> bool" where
  "line_terminator c = (c = CHR 0x0A \<or> c = CHR 0x0D)"

text \<open>
  \<open>generatedHtml.match(/<title>(.*?)<\/title>/i)\<close>. After an opening tag the lazy group
  takes the shortest run of non-terminators that is followed by the closing tag
  (\<open>title_group\<close>); when the run meets a line terminator or the end of the string first,
  the match is retried from the next position (\<open>match_title\<close>). The result is the first
  capture group, \<open>titleMatch[1]\<close>.
\<close>

fun title_group :: "string \<Rightarrow> string option" where
  "title_group [] = None"
| "title_group (c # cs) =
     (if ci_prefix ''</title>'' (c # cs) then Some []
      else if line_terminator c then None
      else map_option ((#) c) (title_group cs))"

fun match_title :: "string \<Rightarrow> string option" where
  "match_title [] = None"
| "match_title (c # cs) =
     (if ci_prefix ''<title>'' (c # cs) then
        (case title_group (drop (length ''<title>'') (c # cs)) of
           Some t \<Rightarrow> Some t
         | None \<Rightarrow> match_title cs)
      else match_title cs)"

text \<open>The character class \<open>[<>:"/\\|?*]\<close> and \<open>.replace(/[<>:"/\\|?*]/g, '-')\<close>.\<close>

definition unsafe_chars :: "char list" where
  "unsafe_chars =
     [CHR ''<'', CHR ''>'', CHR '':'', CHR 0x22, CHR ''/'', CHR 0x5C, CHR ''|'', CHR ''?'', CHR ''*'']"

definition sanitize :: "string \<Rightarrow> string" where
  "sanitize s = map (\<lambda>c. if c \<in> set unsafe_chars then CHR ''-'' else c) s"

text \<open>
  \<open>String.prototype.trim\<close> removes white space and line terminators at both ends; below
  256 these are the code units 9 to 13, 32 and 160.
\<close>

definition white_space :: "char \<Rightarrow> bool" where
  "white_space c = (let n = (of_char c :: nat) in (9 \<le> n \<and> n \<le> 13) \<or> n = 32 \<or> n = 160)"

definition trim :: "string \<Rightarrow> string" where
  "trim s = rev (dropWhile white_space (rev (dropWhile white_space s)))"

text \<open>\<open>String(n)\<close> for an integer: the decimal digits, after a minus sign when negative.\<close>

definition digit_char :: "int \<Rightarrow> char" where
  "digit_char d = char_of (48 + d)"

function digits_of :: "int \<Rightarrow> string" where
  "digits_of n = (if n < 10 then [digit_char n] else digits_of (n div 10) @ [digit_char (n mod 10)])"
  by pat_completeness auto
termination
  by (relation "measure nat") auto

definition String :: "int \<Rightarrow> string" where
  "String n = (if n < 0 then CHR ''-'' # digits_of (- n) else digits_of n)"

text \<open>\<open>s.padStart(n, c)\<close> for a one-character filler, and \<open>s.slice(-n)\<close>.\<close>

definition padStart :: "nat \<Rightarrow> char \<Rightarrow> string \<Rightarrow> string" where
  "padStart n c s = replicate (n - length s) c @ s"

definition slice_last :: "nat \<Rightarrow> string \<Rightarrow> string" where
  "slice_last n s = drop (length s - n) s"

text \<open>What \<open>handleDownload\<close> reads of \<open>new Date()\<close>.\<close>

record js_date =
  getFullYear :: int
  getMonth :: int
  getDate :: int

text \<open>
  \<open>handleDownload\<close> on the session's \<open>generatedHtml\<close>, here \<open>html\<close>: nothing is
  downloaded for an empty document (\<open>None\<close>); otherwise the result is the \<open>download\<close>
  attribute given to the link.
\<close>

definition handleDownload :: "string \<Rightarrow> js_date \<Rightarrow> string option" where
  "handleDownload html now =
     (if html = [] then None
      else
        let titleMatch = match_title html;
            filenameBase = (case titleMatch of Some t \<Rightarrow> t | None \<Rightarrow> ''Interactive_Lesson'');
            filenameBase = trim (sanitize filenameBase);
            month = padStart 2 (CHR ''0'') (String (getMonth now + 1));
            day = padStart 2 (CHR ''0'') (String (getDate now));
            year = slice_last 2 (String (getFullYear now));
            dateStr = month @ ''.'' @ day @ ''.'' @ year
        in Some (filenameBase @ ''-sway-'' @ dateStr @ ''.html''))"

text \<open>The date format \<open>MM.DD.YY\<close>, digit by digit.\<close>

definition mm_dd_yy :: "int \<Rightarrow> int \<Rightarrow> int \<Rightarrow> string" where
  "mm_dd_yy m d y =
     [digit_char (m div 10), digit_char (m mod 10), CHR ''.'',
      digit_char (d div 10), digit_char (d mod 10), CHR ''.'',
      digit_char ((y div 10) mod 10), digit_char (y mod 10)]"

definition coffee_shop_page :: string where
  "coffee_shop_page =
     ''<html><head><TITLE>Coffee Shop: Level A2</title></head><body><h1>Menu</h1></body></html>''"

definition padded_title_page :: string where
  "padded_title_page =
     ''<html><head><title>  Coffee Shop: Level A2 </title></head><body><h1>Menu</h1></body></html>''"

definition first_of_november_2026 :: js_date where
  "first_of_november_2026 = \<lparr>getFullYear = 2026, getMonth = 10, getDate = 1\<rparr>"

section \<open>Keyframe extraction: \<open>extractKeyframes\<close> (components/InputForm.tsx)\<close>

text \<open>
  A JavaScript number is a double. \<open>Double m e\<close> is the finite double \<open>m * 2^e\<close>; a
  double has a significand of at most 53 bits. The exponent is left unbounded (the duration
  of a media file is far from overflow and from the subnormal range), and NaN and the
  infinities are not represented: the durations considered are finite.
\<close>

datatype double = Double int int









text \<open>
  The video element is the environment of \<open>extractKeyframes\<close>. Loading the file ends with
  the event \<open>loadedmetadata\<close>, which brings the duration, or with \<open>error\<close>, or with neither.
  Setting \<open>currentTime\<close> ends with the event \<open>seeked\<close>, after which the handler draws the
  frame and takes the base64 part of \<open>canvas.toDataURL('image/jpeg', 0.7)\<close> (the text after
  the comma), or it fails (the assignment throws inside the \<open>try\<close>, or the \<open>error\<close> event
  arrives first), or no event ever comes.
\<close>

datatype load_event = LoadedMetadata double | LoadError | NeverLoaded

datatype seek_event = Seeked string | SeekFailed js_error | NeverSeeked

record video =
  metadata :: load_event
  frame_at :: "double \<Rightarrow> seek_event"







section \<open>The pipeline and the assembly: \<open>generateLessonPlan\<close> (services/geminiService.ts)\<close>

text \<open>
  \<open>s.replace(/```html/g, '')\<close> and its like: a global replacement of a literal, non-empty
  pattern by the empty string removes every match, the matches being found from left to
  right and not overlapping.
\<close>

function remove_all :: "string \<Rightarrow> string \<Rightarrow> string" where
  "remove_all pat [] = []"
| "remove_all pat (c # cs) =
     (if pat \<noteq> [] \<and> prefix pat (c # cs) then remove_all pat (drop (length pat) (c # cs))
      else c # remove_all pat cs)"
  by pat_completeness auto
termination
  by (relation "measure (\<lambda>(pat, s). length s)") auto

text \<open>
  \<open>String.prototype.replace\<close> with a string as search value replaces the first
  occurrence only. \<open>split_first pat s\<close> finds it (\<open>StringIndexOf\<close>) and yields what
  precedes and what follows it.
\<close>

fun split_first :: "string \<Rightarrow> string \<Rightarrow> (string \<times> string) option" where
  "split_first pat [] = (if pat = [] then Some ([], []) else None)"
| "split_first pat (c # cs) =
     (if prefix pat (c # cs) then Some ([], drop (length pat) (c # cs))
      else map_option (\<lambda>(preceding, following). (c # preceding, following)) (split_first pat cs))"

text \<open>
  The replacement is a template (\<open>GetSubstitution\<close>): \<open>$$\<close> stands for a dollar sign,
  \<open>$&\<close> for the matched text, \<open>$`\<close> for what precedes the match and \<open>$'\<close> for what
  follows it. With a string as search value there are no capture groups, so every other
  dollar sign, also before a digit or \<open><\<close>, stands for itself.
\<close>

fun GetSubstitution :: "string \<Rightarrow> string \<Rightarrow> string \<Rightarrow> string \<Rightarrow> string" where
  "GetSubstitution matched preceding following (c # d # rest) =
     (if c = CHR ''$'' \<and> d = CHR ''$'' then CHR ''$'' # GetSubstitution matched preceding following rest
      else if c = CHR ''$'' \<and> d = CHR ''&'' then matched @ GetSubstitution matched preceding following rest
      else if c = CHR ''$'' \<and> d = CHR 0x60 then preceding @ GetSubstitution matched preceding following rest
      else if c = CHR ''$'' \<and> d = CHR 0x27 then following @ GetSubstitution matched preceding following rest
      else c # GetSubstitution matched preceding following (d # rest))"
| "GetSubstitution matched preceding following [c] = [c]"
| "GetSubstitution matched preceding following [] = []"

definition replace :: "string \<Rightarrow> string \<Rightarrow> string \<Rightarrow> string" where
  "replace s searchValue replaceValue =
     (case split_first searchValue s of
        None \<Rightarrow> s
      | Some (preceding, following) \<Rightarrow>
          preceding @ GetSubstitution searchValue preceding following replaceValue @ following)"

definition CONTENT_PLACEHOLDER :: string where
  "CONTENT_PLACEHOLDER = ''<!-- CONTENT_PLACEHOLDER -->''"

definition BODY_END :: string where
  "BODY_END = ''</body>''"

definition CONTAINER_OPEN :: string where
  "CONTAINER_OPEN = ''<div class=\"container py-5\"><div class=\"row\">''"

definition CONTAINER_CLOSE :: string where
  "CONTAINER_CLOSE = ''</div></div>''"

text \<open>The three cleaned stage outputs of the assembly.\<close>

definition clean_html :: "string \<Rightarrow> string" where
  "clean_html s = remove_all ''```'' (remove_all ''```html'' s)"

definition clean_javascript :: "string \<Rightarrow> string" where
  "clean_javascript s = remove_all ''```'' (remove_all ''```javascript'' s)"

text \<open>
  The assembly, the last part of \<open>generateLessonPlan\<close>, from the outputs of the stages
  3, 4 and 5.
\<close>

definition assemble :: "string \<Rightarrow> string \<Rightarrow> string \<Rightarrow> string" where
  "assemble shell contentHtml script =
     (let finalHtml = clean_html shell;
          cleanContent = clean_html contentHtml;
          cleanScript = clean_javascript script;
          finalHtml =
            (if str_includes finalHtml CONTENT_PLACEHOLDER
             then replace finalHtml CONTENT_PLACEHOLDER cleanContent
             else replace finalHtml BODY_END
                    (CONTAINER_OPEN @ cleanContent @ CONTAINER_CLOSE @ BODY_END))
      in replace finalHtml BODY_END (cleanScript @ BODY_END))"

text \<open>\<open>callGemini\<close>: one request; \<open>response.text || ""\<close>.\<close>

definition callGemini :: "gateway \<Rightarrow> instruction \<Rightarrow> part list \<Rightarrow> nat \<Rightarrow> string settled" where
  "callGemini ai systemPrompt userContent k =
     (case ai systemPrompt userContent k of
        Reject error \<Rightarrow> Reject error
      | Resolve None \<Rightarrow> Resolve []
      | Resolve (Some text) \<Rightarrow> Resolve text)"

text \<open>A stage: \<open>await withRetry(() => callGemini(prompt, content))\<close>.\<close>

definition stage :: "gateway \<Rightarrow> instruction \<Rightarrow> part list \<Rightarrow> string completion" where
  "stage ai systemPrompt userContent = result (withRetry (callGemini ai systemPrompt userContent) 5)"

text \<open>\<open>await\<close> inside \<open>try\<close>: a thrown error ends the pipeline and is rethrown.\<close>

fun await :: "'a completion \<Rightarrow> ('a \<Rightarrow> 'b completion) \<Rightarrow> 'b completion" where
  "await (Returned v) continue = continue v"
| "await (Thrown error) continue = Thrown error"

record attachment =
  mimeType :: string
  att_data :: string

definition blueprint_and_assets :: "string \<Rightarrow> string \<Rightarrow> string" where
  "blueprint_and_assets blueprint assets =
     ''BLUEPRINT:'' @ [CHR 0x0A] @ blueprint @ [CHR 0x0A, CHR 0x0A] @ ''ASSETS:'' @ [CHR 0x0A] @ assets"

text \<open>
  \<open>generateLessonPlan\<close>. The status callback and the cooldown between the stages have no
  effect on the value returned and are left out.
\<close>

definition generateLessonPlan :: "gateway \<Rightarrow> string \<Rightarrow> attachment list \<Rightarrow> string completion" where
  "generateLessonPlan ai userInput attachments =
     (let parts = Text userInput # map (\<lambda>att. InlineData (mimeType att) (att_data att)) attachments
      in await (stage ai PROMPT_ARCHITECT parts) (\<lambda>blueprint.
         await (stage ai PROMPT_ASSET_MANAGER [Text blueprint]) (\<lambda>assets.
         await (stage ai PROMPT_SHELL [Text ''Create shell for topic based on blueprint content.'']) (\<lambda>shell.
         await (stage ai PROMPT_CONTENT [Text (blueprint_and_assets blueprint assets)]) (\<lambda>contentHtml.
         await (stage ai PROMPT_LOGIC [Text (blueprint_and_assets blueprint assets)]) (\<lambda>script.
         Returned (assemble shell contentHtml script)))))))"

text \<open>
  Shapes of text used in the properties of the assembly. A replacement template is plain
  when no dollar sign in it starts one of the four patterns. A text opens first when its
  first angle bracket is \<open><\<close>, and closes last when its last angle bracket is \<open>>\<close>.
\<close>

fun plain_template :: "string \<Rightarrow> bool" where
  "plain_template (c # d # rest) =
     (\<not> (c = CHR ''$'' \<and> (d = CHR ''$'' \<or> d = CHR ''&'' \<or> d = CHR 0x60 \<or> d = CHR 0x27))
      \<and> plain_template (d # rest))"
| "plain_template [c] = True"
| "plain_template [] = True"

fun opens_first :: "string \<Rightarrow> bool" where
  "opens_first [] = False"
| "opens_first (c # cs) = (if c = CHR ''<'' then True else if c = CHR ''>'' then False else opens_first cs)"

fun closes_first :: "string \<Rightarrow> bool" where
  "closes_first [] = False"
| "closes_first (c # cs) = (if c = CHR ''>'' then True else if c = CHR ''<'' then False else closes_first cs)"

definition closes_last :: "string \<Rightarrow> bool" where
  "closes_last s = closes_first (rev s)"

text \<open>A scripted service that answers each stage with a fixed text.\<close>

fun scripted :: "string \<Rightarrow> string \<Rightarrow> string \<Rightarrow> gateway" where
  "scripted shell contentHtml script PROMPT_SHELL ps k = Resolve (Some shell)"
| "scripted shell contentHtml script PROMPT_CONTENT ps k = Resolve (Some contentHtml)"
| "scripted shell contentHtml script PROMPT_LOGIC ps k = Resolve (Some script)"
| "scripted shell contentHtml script i ps k = Resolve (Some ''# Blueprint'')"

definition shell_with_marker :: string where
  "shell_with_marker = ''```html<html><body><!-- CONTENT_PLACEHOLDER --></body></html>```''"

definition shell_with_two_markers :: string where
  "shell_with_two_markers =
     ''<html><body><!-- CONTENT_PLACEHOLDER --><!-- CONTENT_PLACEHOLDER --></body></html>''"

definition shell_without_marker :: string where
  "shell_without_marker = ''<html><body><h1>Lesson</h1></body></html>''"

definition shell_without_body_end :: string where
  "shell_without_body_end = ''<html><BODY><h1>Lesson</h1></BODY></html>''"

definition content_card :: string where
  "content_card = ''<div>X</div>''"

definition script_block :: string where
  "script_block = ''```javascript<script>AOS.init();</script>```''"

section \<open>The media normalizer: \<open>processFile\<close> (components/InputForm.tsx)\<close>

datatype status = Processing | Completed | Error

text \<open>\<open>interface FileItem\<close>; an optional field that is absent or undefined is \<open>None\<close>.\<close>

record FileItem =
  fi_id :: string
  fi_name :: string
  fi_type :: string
  fi_data :: "string option"
  fi_keyframes :: "string list option"
  fi_text :: "string option"
  fi_status :: status
  fi_progress :: nat
  fi_isMedia :: bool

text \<open>
  The argument of \<open>updateFile\<close>, a \<open>Partial<FileItem>\<close> over the five fields that the
  calls in \<open>processFile\<close> mention; \<open>None\<close> is a field not mentioned. \<open>data\<close> can be
  mentioned with the value undefined, which is \<open>Some None\<close>.
\<close>

record file_updates =
  u_data :: "string option option"
  u_keyframes :: "string list option"
  u_text :: "string option"
  u_status :: "status option"
  u_progress :: "nat option"

definition no_updates :: file_updates where
  "no_updates = \<lparr>u_data = None, u_keyframes = None, u_text = None, u_status = None, u_progress = None\<rparr>"

text \<open>\<open>{ ...f, ...updates }\<close>\<close>

definition apply_updates :: "file_updates \<Rightarrow> FileItem \<Rightarrow> FileItem" where
  "apply_updates u f =
     f\<lparr>fi_data := (case u_data u of None \<Rightarrow> fi_data f | Some d \<Rightarrow> d),
       fi_keyframes := (case u_keyframes u of None \<Rightarrow> fi_keyframes f | Some k \<Rightarrow> Some k),
       fi_text := (case u_text u of None \<Rightarrow> fi_text f | Some t \<Rightarrow> Some t),
       fi_status := (case u_status u of None \<Rightarrow> fi_status f | Some st \<Rightarrow> st),
       fi_progress := (case u_progress u of None \<Rightarrow> fi_progress f | Some n \<Rightarrow> n)\<rparr>"

text \<open>\<open>setFiles(prev => prev.map(f => f.id === id ? { ...f, ...updates } : f))\<close>\<close>

definition updateFile :: "string \<Rightarrow> file_updates \<Rightarrow> FileItem list \<Rightarrow> FileItem list" where
  "updateFile fid updates prev = map (\<lambda>f. if fi_id f = fid then apply_updates updates f else f) prev"

text \<open>\<open>setFiles(prev => prev.filter(f => f.id !== id))\<close>\<close>

definition removeFile :: "string \<Rightarrow> FileItem list \<Rightarrow> FileItem list" where
  "removeFile fid prev = filter (\<lambda>f. fi_id f \<noteq> fid) prev"

text \<open>The \<open>File\<close> chosen by the user, as far as \<open>processFile\<close> reads it.\<close>

record js_file =
  file_name :: string
  file_type :: string

definition endsWith :: "string \<Rightarrow> string \<Rightarrow> bool" where
  "endsWith s pat = suffix pat s"

definition isVideo :: "js_file \<Rightarrow> bool" where
  "isVideo selectedFile =
     (let fileName = toLowerCase (file_name selectedFile)
      in startsWith (file_type selectedFile) ''video/'' \<or> endsWith fileName ''.mp4''
         \<or> endsWith fileName ''.mov'' \<or> endsWith fileName ''.webm'')"



text \<open>The branch of \<open>processFile\<close> that handles the file, in the order of the source.\<close>

datatype kind = Video | Docx | PlainText | Binary

definition kind_of :: "js_file \<Rightarrow> kind" where
  "kind_of selectedFile =
     (let fileName = toLowerCase (file_name selectedFile)
      in if isVideo selectedFile then Video
         else if endsWith fileName ''.docx'' then Docx
         else if endsWith fileName ''.txt'' \<or> file_type selectedFile = ''text/plain'' then PlainText
         else Binary)"

text \<open>
  \<open>s.split(',')[1]\<close>: undefined without a comma, else the text between the first comma and
  the second one or the end.
\<close>

definition second_field :: "string \<Rightarrow> string option" where
  "second_field s =
     (case dropWhile (\<lambda>c. c \<noteq> CHR '','') s of
        [] \<Rightarrow> None
      | comma # rest \<Rightarrow> Some (takeWhile (\<lambda>c. c \<noteq> CHR '','') rest))"

text \<open>
  One call of \<open>processFile\<close> with the state it shares with its callbacks: the list
  \<open>files\<close> of the component, the counter \<open>p\<close> of the progress timer, whether the timer is
  still set, and whether the completion callback (the \<open>await\<close> of the keyframes, or
  \<open>reader.onload\<close>) is still to come.
\<close>

record process =
  pr_files :: "FileItem list"
  pr_p :: nat
  pr_interval :: bool
  pr_awaiting :: bool

text \<open>
  What can happen after the call: the timer fires; the keyframe extraction is fulfilled or
  rejected; the reader has loaded a \<open>.docx\<close> file and \<open>mammoth\<close> delivers the raw text,
  throws, or is not there; the reader delivers the text of a text file, or the data URL of
  any other file; the user removes the file. The calls of \<open>processFile\<close> for other files
  update and remove the items of their own identifiers only, and are left out.
\<close>

datatype event =
  Tick
  | KeyframesReady "string list"
  | KeyframesFailed
  | DocxExtracted string
  | DocxFailed
  | DocxLoadedWithoutMammoth
  | TextLoaded string
  | DataUrlLoaded string
  | Remove



text \<open>The two terminal updates: \<open>clearInterval(interval); updateFile(...)\<close>.\<close>

definition complete_with :: "string \<Rightarrow> file_updates \<Rightarrow> process \<Rightarrow> process" where
  "complete_with fid updates s =
     s\<lparr>pr_interval := False,
       pr_files := updateFile fid (updates\<lparr>u_status := Some Completed, u_progress := Some 100\<rparr>)
                     (pr_files s),
       pr_awaiting := False\<rparr>"

definition fail :: "string \<Rightarrow> process \<Rightarrow> process" where
  "fail fid s =
     s\<lparr>pr_interval := False,
       pr_files := updateFile fid (no_updates\<lparr>u_status := Some Error\<rparr>) (pr_files s),
       pr_awaiting := False\<rparr>"

text \<open>
  The effect of one event on the process of the file \<open>selectedFile\<close> with identifier
  \<open>fid\<close>. An event that cannot happen in the state (a timer that is cleared, a callback
  of another branch or one that has run already) changes nothing.
\<close>

fun step :: "string \<Rightarrow> js_file \<Rightarrow> process \<Rightarrow> event \<Rightarrow> process" where
  "step fid selectedFile s Tick =
     (if pr_interval s then
        (if pr_p s + 15 \<le> 90
         then s\<lparr>pr_p := pr_p s + 15,
                pr_files := updateFile fid (no_updates\<lparr>u_progress := Some (pr_p s + 15)\<rparr>) (pr_files s)\<rparr>
         else s\<lparr>pr_p := pr_p s + 15\<rparr>)
      else s)"
| "step fid selectedFile s (KeyframesReady frames) =
     (if pr_awaiting s \<and> kind_of selectedFile = Video
      then complete_with fid (no_updates\<lparr>u_keyframes := Some frames\<rparr>) s else s)"
| "step fid selectedFile s KeyframesFailed =
     (if pr_awaiting s \<and> kind_of selectedFile = Video then fail fid s else s)"
| "step fid selectedFile s (DocxExtracted raw) =
     (if pr_awaiting s \<and> kind_of selectedFile = Docx
      then complete_with fid (no_updates\<lparr>u_text := Some raw\<rparr>) s else s)"
| "step fid selectedFile s DocxFailed =
     (if pr_awaiting s \<and> kind_of selectedFile = Docx then fail fid s else s)"
| "step fid selectedFile s DocxLoadedWithoutMammoth =
     (if pr_awaiting s \<and> kind_of selectedFile = Docx then s\<lparr>pr_awaiting := False\<rparr> else s)"
| "step fid selectedFile s (TextLoaded content) =
     (if pr_awaiting s \<and> kind_of selectedFile = PlainText
      then complete_with fid (no_updates\<lparr>u_text := Some content\<rparr>) s else s)"
| "step fid selectedFile s (DataUrlLoaded url) =
     (if pr_awaiting s \<and> kind_of selectedFile = Binary then
        (if url \<noteq> []
         then complete_with fid (no_updates\<lparr>u_data := Some (second_field url)\<rparr>) s
         else s\<lparr>pr_awaiting := False\<rparr>)
      else s)"
| "step fid selectedFile s Remove = s\<lparr>pr_files := removeFile fid (pr_files s)\<rparr>"

text \<open>The process after a sequence of events.\<close>

definition run_events :: "string \<Rightarrow> js_file \<Rightarrow> process \<Rightarrow> event list \<Rightarrow> process" where
  "run_events fid selectedFile s events = foldl (step fid selectedFile) s events"







section \<open>Properties of the retry governor\<close>

declare withRetry_loop.simps [simp del]

lemma str_includes_sublist: "str_includes s pat \<longleftrightarrow> sublist pat s"
  by (induction s) (auto simp: startsWith_def sublist_Cons_right)

lemma rate_limited_atD: "rate_limited_at fn k \<Longrightarrow> \<exists>e. fn k = Reject e \<and> isRateLimit e"
  by (auto simp: rate_limited_at_def split: settled.splits)

lemma loop_success:
  "k < n \<Longrightarrow> i \<le> k \<Longrightarrow> (\<forall>j. i \<le> j \<and> j < k \<longrightarrow> rate_limited_at fn j) \<Longrightarrow> fn k = Resolve v \<Longrightarrow>
   withRetry_loop fn n i le sl = \<lparr>result = Returned v, calls = Suc k, sleeps = sl @ map delay [i..<k]\<rparr>"
proof (induction "k - i" arbitrary: i le sl)
  case 0
  then have "i = k" by simp
  with 0 show ?case by (subst withRetry_loop.simps) simp
next
  case (Suc d)
  then have lt: "i < k" by simp
  then obtain e where e: "fn i = Reject e" "isRateLimit e"
    using Suc.prems rate_limited_atD[of fn i] by auto
  have "withRetry_loop fn n i le sl = withRetry_loop fn n (Suc i) (Some e) (sl @ [delay i])"
    using lt Suc.prems e by (subst withRetry_loop.simps) simp
  also have "\<dots> = \<lparr>result = Returned v, calls = Suc k, sleeps = (sl @ [delay i]) @ map delay [Suc i..<k]\<rparr>"
    using Suc by (intro Suc.hyps(1)) auto
  finally show ?case using lt by (simp add: upt_conv_Cons)
qed

lemma loop_propagate:
  "k < n \<Longrightarrow> i \<le> k \<Longrightarrow> (\<forall>j. i \<le> j \<and> j < k \<longrightarrow> rate_limited_at fn j) \<Longrightarrow> fn k = Reject e \<Longrightarrow>
   \<not> isRateLimit e \<Longrightarrow>
   withRetry_loop fn n i le sl = \<lparr>result = Thrown (Some e), calls = Suc k, sleeps = sl @ map delay [i..<k]\<rparr>"
proof (induction "k - i" arbitrary: i le sl)
  case 0
  then have "i = k" by simp
  with 0 show ?case by (subst withRetry_loop.simps) simp
next
  case (Suc d)
  then have lt: "i < k" by simp
  then obtain e' where e: "fn i = Reject e'" "isRateLimit e'"
    using Suc.prems rate_limited_atD[of fn i] by auto
  have "withRetry_loop fn n i le sl = withRetry_loop fn n (Suc i) (Some e') (sl @ [delay i])"
    using lt Suc.prems e by (subst withRetry_loop.simps) simp
  also have "\<dots> = \<lparr>result = Thrown (Some e), calls = Suc k, sleeps = (sl @ [delay i]) @ map delay [Suc i..<k]\<rparr>"
    using Suc by (intro Suc.hyps(1)) auto
  finally show ?case using lt by (simp add: upt_conv_Cons)
qed

lemma loop_exhausted:
  "i < n \<Longrightarrow> (\<forall>j. i \<le> j \<and> j < n - 1 \<longrightarrow> rate_limited_at fn j) \<Longrightarrow> fn (n - 1) = Reject e \<Longrightarrow>
   isRateLimit e \<Longrightarrow>
   withRetry_loop fn n i le sl = \<lparr>result = Thrown (Some e), calls = n, sleeps = sl @ map delay [i..<n]\<rparr>"
proof (induction "n - i" arbitrary: i le sl)
  case 0
  then show ?case by simp
next
  case (Suc d)
  show ?case
  proof (cases "Suc i = n")
    case True
    then have "withRetry_loop fn n i le sl = withRetry_loop fn n n (Some e) (sl @ [delay i])"
      using Suc.prems by (subst withRetry_loop.simps) auto
    also have "\<dots> = \<lparr>result = Thrown (Some e), calls = n, sleeps = sl @ [delay i]\<rparr>"
      by (subst withRetry_loop.simps) simp
    finally show ?thesis using True by auto
  next
    case False
    then have lt: "Suc i < n" using Suc.prems by simp
    then obtain e' where e: "fn i = Reject e'" "isRateLimit e'"
      using Suc.prems rate_limited_atD[of fn i] by auto
    have "withRetry_loop fn n i le sl = withRetry_loop fn n (Suc i) (Some e') (sl @ [delay i])"
      using lt e by (subst withRetry_loop.simps) simp
    also have "\<dots> = \<lparr>result = Thrown (Some e), calls = n, sleeps = (sl @ [delay i]) @ map delay [Suc i..<n]\<rparr>"
      using Suc lt by (intro Suc.hyps(1)) auto
    finally show ?thesis using lt by (simp add: upt_conv_Cons)
  qed
qed

lemma loop_returned:
  "result (withRetry_loop fn n i le sl) = Returned v \<Longrightarrow> \<exists>k<n. fn k = Resolve v"
proof (induction fn n i le sl rule: withRetry_loop.induct)
  case (1 fn n i le sl)
  show ?case
  proof (cases "i < n")
    case False
    with "1.prems" show ?thesis by (subst (asm) withRetry_loop.simps) simp
  next
    case True
    show ?thesis
    proof (cases "fn i")
      case (Resolve w)
      with True "1.prems" have "w = v" by (subst (asm) withRetry_loop.simps) simp
      with True Resolve show ?thesis by auto
    next
      case (Reject e)
      show ?thesis
      proof (cases "isRateLimit e")
        case True
        with \<open>i < n\<close> Reject "1.prems"
        have "result (withRetry_loop fn n (Suc i) (Some e) (sl @ [delay i])) = Returned v"
          by (subst (asm) withRetry_loop.simps) simp
        with "1.IH"[OF \<open>i < n\<close> Reject True] show ?thesis by simp
      next
        case False
        with \<open>i < n\<close> Reject "1.prems" show ?thesis
          by (subst (asm) withRetry_loop.simps) simp
      qed
    qed
  qed
qed

lemma loop_unfold_rl:
  "i < n \<Longrightarrow> fn i = Reject e \<Longrightarrow> isRateLimit e \<Longrightarrow> j = i + 1 \<Longrightarrow>
   withRetry_loop fn n i le sl = withRetry_loop fn n j (Some e) (sl @ [delay i])"
  by (subst withRetry_loop.simps) simp

lemma loop_unfold_ok:
  "i < n \<Longrightarrow> fn i = Resolve v \<Longrightarrow>
   withRetry_loop fn n i le sl = \<lparr>result = Returned v, calls = Suc i, sleeps = sl\<rparr>"
  by (subst withRetry_loop.simps) simp

lemma loop_unfold_other:
  "i < n \<Longrightarrow> fn i = Reject e \<Longrightarrow> \<not> isRateLimit e \<Longrightarrow>
   withRetry_loop fn n i le sl = \<lparr>result = Thrown (Some e), calls = Suc i, sleeps = sl\<rparr>"
  by (subst withRetry_loop.simps) simp

lemma loop_unfold_end:
  "\<not> i < n \<Longrightarrow> withRetry_loop fn n i le sl = \<lparr>result = Thrown le, calls = i, sleeps = sl\<rparr>"
  by (subst withRetry_loop.simps) simp

lemma loop_sleeps:
  "length sl = i \<Longrightarrow>
   sleeps (withRetry_loop fn n i le sl) = sl @ map delay [i..<length (sleeps (withRetry_loop fn n i le sl))]
   \<and> i \<le> length (sleeps (withRetry_loop fn n i le sl))
   \<and> (\<forall>k. i \<le> k \<and> k < length (sleeps (withRetry_loop fn n i le sl)) \<longrightarrow> rate_limited_at fn k)"
proof (induction fn n i le sl rule: withRetry_loop.induct)
  case (1 fn n i le sl)
  show ?case
  proof (cases "i < n")
    case False
    then show ?thesis using "1.prems" by (auto simp add: loop_unfold_end)
  next
    case True
    show ?thesis
    proof (cases "fn i")
      case (Resolve w)
      then show ?thesis using True "1.prems" by (auto simp add: loop_unfold_ok)
    next
      case (Reject e)
      show ?thesis
      proof (cases "isRateLimit e")
        case False
        then show ?thesis using True Reject "1.prems" by (auto simp add: loop_unfold_other)
      next
        case rl: True
        define r where "r = withRetry_loop fn n (Suc i) (Some e) (sl @ [delay i])"
        have r: "withRetry_loop fn n i le sl = r"
          unfolding r_def using True Reject rl by (intro loop_unfold_rl) simp_all
        have len: "length (sl @ [delay i]) = Suc i" using "1.prems" by simp
        note ih = "1.IH"[OF True Reject rl len, folded r_def]
        have ge: "Suc i \<le> length (sleeps r)" using ih by simp
        have b: "sleeps r = sl @ map delay [i..<length (sleeps r)]"
        proof -
          have "[i..<length (sleeps r)] = i # [Suc i..<length (sleeps r)]"
            using ge by (simp add: upt_conv_Cons)
          then show ?thesis using ih by simp
        qed
        have c: "\<forall>k. i \<le> k \<and> k < length (sleeps r) \<longrightarrow> rate_limited_at fn k"
        proof (intro allI impI)
          fix k assume k: "i \<le> k \<and> k < length (sleeps r)"
          show "rate_limited_at fn k"
          proof (cases "k = i")
            case True
            then show ?thesis using Reject rl by (simp add: rate_limited_at_def)
          next
            case False
            then show ?thesis using ih k by auto
          qed
        qed
        show ?thesis unfolding r using b c ge by simp
      qed
    qed
  qed
qed


lemma loop_prefix:
  "k < n \<Longrightarrow> i \<le> k \<Longrightarrow> (\<forall>j. i \<le> j \<and> j < k \<longrightarrow> rate_limited_at fn j) \<Longrightarrow> fn k = Reject e \<Longrightarrow>
   isRateLimit e \<Longrightarrow>
   withRetry_loop fn n i le sl = withRetry_loop fn n (Suc k) (Some e) (sl @ map delay [i..<Suc k])"
proof (induction "k - i" arbitrary: i le sl)
  case 0
  then have "i = k" by simp
  with 0 show ?case using loop_unfold_rl[of k n fn e "Suc k" le sl] by simp
next
  case (Suc d)
  then have lt: "i < k" by simp
  then obtain e' where e: "fn i = Reject e'" "isRateLimit e'"
    using Suc.prems rate_limited_atD[of fn i] by auto
  have "withRetry_loop fn n i le sl = withRetry_loop fn n (Suc i) (Some e') (sl @ [delay i])"
    using lt Suc.prems e by (intro loop_unfold_rl) simp_all
  also have "\<dots> = withRetry_loop fn n (Suc k) (Some e) ((sl @ [delay i]) @ map delay [Suc i..<Suc k])"
    using Suc by (intro Suc.hyps(1)) auto
  finally show ?case using lt by (simp add: upt_conv_Cons)
qed

lemma loop_calls: "i < n \<Longrightarrow> Suc i \<le> calls (withRetry_loop fn n i le sl)"
proof (induction fn n i le sl rule: withRetry_loop.induct)
  case (1 fn n i le sl)
  show ?case
  proof (cases "fn i")
    case (Resolve w)
    then show ?thesis using "1.prems" by (simp add: loop_unfold_ok)
  next
    case (Reject e)
    show ?thesis
    proof (cases "isRateLimit e")
      case False
      then show ?thesis using Reject "1.prems" by (simp add: loop_unfold_other)
    next
      case True
      have r: "withRetry_loop fn n i le sl = withRetry_loop fn n (Suc i) (Some e) (sl @ [delay i])"
        using "1.prems" Reject True by (intro loop_unfold_rl) simp_all
      show ?thesis
      proof (cases "Suc i < n")
        case True
        with "1.IH"[OF "1.prems" Reject \<open>isRateLimit e\<close>] show ?thesis unfolding r by simp
      next
        case False
        then show ?thesis unfolding r by (simp add: loop_unfold_end)
      qed
    qed
  qed
qed

lemma delays_4: "map delay [0..<4] = [5000, 10000, 20000, 40000]"
  by (simp add: delay_def upt_rec)

lemma isRateLimit_quota_error: "isRateLimit quota_error"
  by code_simp

lemma not_isRateLimit_bad_request: "\<not> isRateLimit bad_request"
  by code_simp

text \<open>
  Claim C2. An operation that fails with a rate-limit-classified error on its first four
  attempts and succeeds on the fifth makes \<open>withRetry(operation, 5)\<close> return the success
  value after exactly five invocations; the waits are 5000, 10000, 20000 and 40000 ms (the
  wait after attempt \<open>i\<close>, from 0, is \<open>2^i * 5000\<close>), 75000 ms in total. If all five
  attempts fail rate-limited, the last error observed is thrown.
\<close>

theorem withRetry_four_failures_then_success:
  "((\<forall>k<4. rate_limited_at fn k) \<and> fn 4 = Resolve v \<longrightarrow>
      withRetry fn 5 = \<lparr>result = Returned v, calls = 5, sleeps = [5000, 10000, 20000, 40000]\<rparr>
      \<and> sum_list (sleeps (withRetry fn 5)) = 5000 + 10000 + 20000 + 40000
      \<and> (\<forall>i<4. sleeps (withRetry fn 5) ! i = 2 ^ i * 5000))
   \<and> ((\<forall>k<4. rate_limited_at fn k) \<and> fn 4 = Reject e \<and> isRateLimit e \<longrightarrow>
      result (withRetry fn 5) = Thrown (Some e) \<and> calls (withRetry fn 5) = 5)"
proof (intro conjI impI)
  assume h: "(\<forall>k<4. rate_limited_at fn k) \<and> fn 4 = Resolve v"
  have "withRetry fn 5 = \<lparr>result = Returned v, calls = Suc 4, sleeps = [] @ map delay [0..<4]\<rparr>"
    unfolding withRetry_def using h by (intro loop_success) simp_all
  then show run: "withRetry fn 5 = \<lparr>result = Returned v, calls = 5, sleeps = [5000, 10000, 20000, 40000]\<rparr>"
    by (simp add: delays_4)
  show "sum_list (sleeps (withRetry fn 5)) = 5000 + 10000 + 20000 + 40000" by (simp add: run)
  show "\<forall>i<4. sleeps (withRetry fn 5) ! i = 2 ^ i * 5000"
  proof (intro allI impI)
    fix i :: nat assume "i < 4"
    then consider "i = 0" | "i = 1" | "i = 2" | "i = 3" by linarith
    then show "sleeps (withRetry fn 5) ! i = 2 ^ i * 5000"
      by cases (simp_all add: run)
  qed
next
  assume h: "(\<forall>k<4. rate_limited_at fn k) \<and> fn 4 = Reject e \<and> isRateLimit e"
  have run: "withRetry fn 5 = \<lparr>result = Thrown (Some e), calls = 5, sleeps = [] @ map delay [0..<5]\<rparr>"
    unfolding withRetry_def using h by (intro loop_exhausted) simp_all
  show "result (withRetry fn 5) = Thrown (Some e)" by (simp add: run)
  show "calls (withRetry fn 5) = 5" by (simp add: run)
qed

theorem withRetry_four_failures_then_success_witness:
  "withRetry (fails_then_succeeds 4 quota_error ''<html></html>'') 5
     = \<lparr>result = Returned ''<html></html>'', calls = 5, sleeps = [5000, 10000, 20000, 40000]\<rparr>
   \<and> sum_list (sleeps (withRetry (fails_then_succeeds 4 quota_error ''<html></html>'') 5)) = 75000
   \<and> result (withRetry (always_fails quota_error :: nat \<Rightarrow> string settled) 5) = Thrown (Some quota_error)
   \<and> calls (withRetry (always_fails quota_error :: nat \<Rightarrow> string settled) 5) = 5"
proof -
  have a: "\<forall>k<4. rate_limited_at (fails_then_succeeds 4 quota_error ''<html></html>'') k"
    by (simp add: rate_limited_at_def isRateLimit_quota_error)
  have b: "fails_then_succeeds 4 quota_error ''<html></html>'' 4 = Resolve ''<html></html>''"
    by simp
  have c: "\<forall>k<4. rate_limited_at (always_fails quota_error :: nat \<Rightarrow> string settled) k"
    by (simp add: rate_limited_at_def isRateLimit_quota_error)
  have d: "(always_fails quota_error :: nat \<Rightarrow> string settled) 4 = Reject quota_error"
    by simp
  show ?thesis
    using withRetry_four_failures_then_success
        [of "fails_then_succeeds 4 quota_error ''<html></html>''" "''<html></html>''" quota_error]
      withRetry_four_failures_then_success
        [of "always_fails quota_error :: nat \<Rightarrow> string settled" "[]" quota_error]
      a b c d isRateLimit_quota_error
    by simp
qed

text \<open>
  Claim C5. If the first invocation throws an error that is not classified as rate-limited,
  \<open>withRetry\<close> throws that very error at once: one invocation, no backoff sleep.
\<close>

theorem withRetry_other_error_propagates:
  "0 < maxRetries \<Longrightarrow> fn 0 = Reject e \<Longrightarrow> \<not> isRateLimit e \<Longrightarrow>
   withRetry fn maxRetries = \<lparr>result = Thrown (Some e), calls = 1, sleeps = []\<rparr>"
  unfolding withRetry_def by (simp add: loop_unfold_other)

theorem withRetry_other_error_propagates_witness:
  "withRetry (always_fails bad_request :: nat \<Rightarrow> string settled) 5
     = \<lparr>result = Thrown (Some bad_request), calls = 1, sleeps = []\<rparr>"
  using withRetry_other_error_propagates[of 5 "always_fails bad_request :: nat \<Rightarrow> string settled" bad_request]
    not_isRateLimit_bad_request
  by simp

text \<open>
  Claim C3 as stated fails: an error without status whose message is
  \<open>Resource exhausted\<close> contains "resource exhausted" case-insensitively, yet it is not
  classified as rate-limited and propagates after a single invocation with no backoff.
\<close>

theorem isRateLimit_resource_exhausted_counterexample:
  "err_message resource_exhausted_spaced = Some ''Resource exhausted''
   \<and> str_includes (toLowerCase ''Resource exhausted'') ''resource exhausted''
   \<and> \<not> isRateLimit resource_exhausted_spaced
   \<and> withRetry (always_fails resource_exhausted_spaced :: nat \<Rightarrow> string settled) 5
       = \<lparr>result = Thrown (Some resource_exhausted_spaced), calls = 1, sleeps = []\<rparr>"
proof -
  have a: "err_message resource_exhausted_spaced = Some ''Resource exhausted''"
    by (simp add: resource_exhausted_spaced_def)
  have b: "str_includes (toLowerCase ''Resource exhausted'') ''resource exhausted''"
    by code_simp
  have c: "\<not> isRateLimit resource_exhausted_spaced"
    by code_simp
  have d: "withRetry (always_fails resource_exhausted_spaced :: nat \<Rightarrow> string settled) 5
       = \<lparr>result = Thrown (Some resource_exhausted_spaced), calls = 1, sleeps = []\<rparr>"
    unfolding withRetry_def using c by (simp add: loop_unfold_other)
  show ?thesis using a b c d by blast
qed

text \<open>
  Claim C3, amended. \<open>withRetry\<close> classifies a thrown error as rate-limited exactly when
  its status is 429 or its lower-cased message contains \<open>429\<close> or
  \<open>resource_exhausted\<close> (with an underscore). Only errors so classified trigger
  backoff-and-retry: every sleep follows a rate-limited failure, a rate-limited failure of
  attempt \<open>k\<close> is followed by a sleep of \<open>2^k * 5000\<close> ms and, when attempts remain, by
  another invocation; any other error propagates at once.
\<close>

theorem withRetry_classification:
  "(isRateLimit e \<longleftrightarrow>
      err_status e = Some 429
      \<or> (\<exists>m. err_message e = Some m
              \<and> (sublist ''429'' (toLowerCase m) \<or> sublist ''resource_exhausted'' (toLowerCase m))))
   \<and> (k < maxRetries \<and> (\<forall>j<k. rate_limited_at fn j) \<and> fn k = Reject e \<longrightarrow>
        (\<not> isRateLimit e \<longrightarrow>
           withRetry fn maxRetries
             = \<lparr>result = Thrown (Some e), calls = Suc k, sleeps = map delay [0..<k]\<rparr>)
        \<and> (isRateLimit e \<longrightarrow>
             k < length (sleeps (withRetry fn maxRetries))
             \<and> sleeps (withRetry fn maxRetries) ! k = 2 ^ k * 5000
             \<and> (Suc k < maxRetries \<longrightarrow> Suc (Suc k) \<le> calls (withRetry fn maxRetries))))
   \<and> (\<forall>i<length (sleeps (withRetry fn maxRetries)). rate_limited_at fn i)"
proof (intro conjI impI)
  show "isRateLimit e \<longleftrightarrow>
      err_status e = Some 429
      \<or> (\<exists>m. err_message e = Some m
              \<and> (sublist ''429'' (toLowerCase m) \<or> sublist ''resource_exhausted'' (toLowerCase m)))"
    by (cases "err_message e")
       (simp_all add: isRateLimit_def errorMessage_def str_includes_sublist, blast)
next
  assume h: "k < maxRetries \<and> (\<forall>j<k. rate_limited_at fn j) \<and> fn k = Reject e" and n: "\<not> isRateLimit e"
  have "withRetry fn maxRetries
      = \<lparr>result = Thrown (Some e), calls = Suc k, sleeps = [] @ map delay [0..<k]\<rparr>"
    unfolding withRetry_def using h n by (intro loop_propagate) simp_all
  then show "withRetry fn maxRetries
      = \<lparr>result = Thrown (Some e), calls = Suc k, sleeps = map delay [0..<k]\<rparr>" by simp
next
  assume h: "k < maxRetries \<and> (\<forall>j<k. rate_limited_at fn j) \<and> fn k = Reject e" and y: "isRateLimit e"
  have pre: "\<forall>j. 0 \<le> j \<and> j < Suc k \<longrightarrow> rate_limited_at fn j"
    using h y by (auto simp: rate_limited_at_def less_Suc_eq)
  have eq: "withRetry fn maxRetries
      = withRetry_loop fn maxRetries (Suc k) (Some e) (map delay [0..<Suc k])"
    unfolding withRetry_def using h y loop_prefix[of k maxRetries 0 fn e None "[]"]
    by (simp add: rate_limited_at_def)
  have len: "length (map delay [0..<Suc k]) = Suc k" by simp
  note sl = loop_sleeps[OF len, of fn maxRetries "Some e", folded eq]
  have a: "k < length (sleeps (withRetry fn maxRetries))" using sl by simp
  have "sleeps (withRetry fn maxRetries) ! k = map delay [0..<Suc k] ! k"
    using sl by (metis len lessI nth_append)
  then have b: "sleeps (withRetry fn maxRetries) ! k = 2 ^ k * 5000"
    by (simp add: nth_append delay_def)
  have c: "Suc k < maxRetries \<longrightarrow> Suc (Suc k) \<le> calls (withRetry fn maxRetries)"
    unfolding eq using loop_calls[of "Suc k" maxRetries fn] by simp
  show "k < length (sleeps (withRetry fn maxRetries))" by (rule a)
  show "sleeps (withRetry fn maxRetries) ! k = 2 ^ k * 5000" by (rule b)
  show "Suc (Suc k) \<le> calls (withRetry fn maxRetries)" if "Suc k < maxRetries"
    using c that by blast
next
  show "\<forall>i<length (sleeps (withRetry fn maxRetries)). rate_limited_at fn i"
    unfolding withRetry_def using loop_sleeps[of "[]" 0 fn maxRetries None] by simp
qed

theorem withRetry_classification_witness:
  "withRetry (always_fails bad_request :: nat \<Rightarrow> string settled) 5
     = \<lparr>result = Thrown (Some bad_request), calls = 1, sleeps = []\<rparr>
   \<and> sleeps (withRetry (always_fails quota_error :: nat \<Rightarrow> string settled) 5) ! 0 = 5000
   \<and> 2 \<le> calls (withRetry (always_fails quota_error :: nat \<Rightarrow> string settled) 5)"
proof -
  have a: "(always_fails bad_request :: nat \<Rightarrow> string settled) 0 = Reject bad_request"
    by simp
  have b: "(always_fails quota_error :: nat \<Rightarrow> string settled) 0 = Reject quota_error"
    by simp
  show ?thesis
    using withRetry_classification
        [of bad_request 0 5 "always_fails bad_request :: nat \<Rightarrow> string settled"]
      withRetry_classification
        [of quota_error 0 5 "always_fails quota_error :: nat \<Rightarrow> string settled"]
      a b not_isRateLimit_bad_request isRateLimit_quota_error
    by simp
qed

section \<open>Properties of the refinement operation\<close>

lemma withRetry_result_cases:
  "(\<exists>v. result (withRetry fn n) = Returned v) \<or> (\<exists>e. result (withRetry fn n) = Thrown e)"
  by (cases "result (withRetry fn n)") auto

lemma refine_operation_nonempty:
  "refine_operation ai currentHtml userRequest k = Resolve v \<Longrightarrow> currentHtml \<noteq> [] \<Longrightarrow> v \<noteq> []"
  by (auto simp: refine_operation_def Let_def split: settled.splits option.splits if_splits)

text \<open>
  Claim C6. If the refinement operation fails (it throws, after the retries are exhausted or
  on an error that is not retried), the previous artifact is left unchanged: the model of
  \<open>refineLessonPlan\<close> is a function of its arguments and cannot change them, and the
  session's \<open>generatedHtml\<close> keeps its value through the failed \<open>handleRefine\<close>.
\<close>

theorem handleRefine_failure_keeps_artifact:
  "result (refineLessonPlan ai (generatedHtml st) request) = Thrown error \<Longrightarrow>
   generatedHtml (handleRefine ai st request) = generatedHtml st
   \<and> currentView (handleRefine ai st request) = currentView st
   \<and> \<not> isProcessing (handleRefine ai st request)"
  by (simp add: handleRefine_def Let_def)

lemma refuses_bad_request_thrown:
  "result (refineLessonPlan (refuses bad_request) (generatedHtml lesson_state) ''Add a quiz'')
     = Thrown (Some bad_request)"
  unfolding refineLessonPlan_def withRetry_def
  using loop_unfold_other[of 0 5 "refine_operation (refuses bad_request) (generatedHtml lesson_state) ''Add a quiz''" bad_request None "[]"]
    not_isRateLimit_bad_request
  by (simp add: refine_operation_def)

theorem handleRefine_failure_keeps_artifact_witness:
  "result (refineLessonPlan (refuses bad_request) (generatedHtml lesson_state) ''Add a quiz'')
     = Thrown (Some bad_request)
   \<and> generatedHtml (handleRefine (refuses bad_request) lesson_state ''Add a quiz'')
     = ''<html><body>Lesson</body></html>''"
  using handleRefine_failure_keeps_artifact
      [of "refuses bad_request" lesson_state "''Add a quiz''" "Some bad_request"]
    refuses_bad_request_thrown
  by (simp add: lesson_state_def)



lemma refineLessonPlan_returned_nonempty: "result (refineLessonPlan ai currentHtml userRequest) = Returned v \<Longrightarrow> currentHtml \<noteq> []
    \<Longrightarrow> v \<noteq> []"
proof -
  assume h: "result (refineLessonPlan ai currentHtml userRequest) = Returned v" and ne: "currentHtml \<noteq> []"
  obtain k where "refine_operation ai currentHtml userRequest k = Resolve v"
    using h loop_returned[of "refine_operation ai currentHtml userRequest" 5 0 None "[]" v]
    unfolding refineLessonPlan_def withRetry_def by blast
  then show "v \<noteq> []" using ne refine_operation_nonempty by blast
qed


lemma refine_operation_empty_text: "ai REFINE_INSTRUCTION (refine_request currentHtml userRequest) k = Resolve text
     \<Longrightarrow> text = None \<or> text = Some [] \<Longrightarrow>
   refine_operation ai currentHtml userRequest k = Resolve currentHtml"
  by (auto simp add: refine_operation_def strip_leading_fence_def strip_trailing_fence_def)


lemma refineLessonPlan_run_success: 
  assumes k5: "k < 5" and rl: "\<forall>j<k. rate_limited_at (refine_operation ai currentHtml userRequest) j"
   and op: "refine_operation ai currentHtml userRequest k = Resolve currentHtml"
  shows "refineLessonPlan ai currentHtml userRequest
      = \<lparr>result = Returned currentHtml, calls = Suc k, sleeps = [] @ map delay [0..<k]\<rparr>"
proof -
  have rl': "\<forall>j. 0 \<le> j \<and> j < k \<longrightarrow> rate_limited_at (refine_operation ai currentHtml userRequest) j"
    using rl by blast
  have z: "(0::nat) \<le> k" by simp
  show ?thesis
    unfolding refineLessonPlan_def withRetry_def by (rule loop_success[OF k5 z rl' op])
qed


text \<open>
  Claim C10. If the model call inside \<open>refineLessonPlan\<close> succeeds but yields empty text,
  the unchanged current artifact is returned; a successful refinement never replaces a
  non-empty artifact by an empty one.
\<close>

theorem refineLessonPlan_empty_text_keeps_artifact:
  "(k < 5 \<and> (\<forall>j<k. rate_limited_at (refine_operation ai currentHtml userRequest) j)
      \<and> ai REFINE_INSTRUCTION (refine_request currentHtml userRequest) k = Resolve text
      \<and> (text = None \<or> text = Some [])
    \<longrightarrow> result (refineLessonPlan ai currentHtml userRequest) = Returned currentHtml
        \<and> calls (refineLessonPlan ai currentHtml userRequest) = Suc k)
   \<and> (result (refineLessonPlan ai currentHtml userRequest) = Returned v \<and> currentHtml \<noteq> []
    \<longrightarrow> v \<noteq> [])"
proof (intro conjI impI)
  assume h: "k < 5 \<and> (\<forall>j<k. rate_limited_at (refine_operation ai currentHtml userRequest) j)
      \<and> ai REFINE_INSTRUCTION (refine_request currentHtml userRequest) k = Resolve text
      \<and> (text = None \<or> text = Some [])"
  have op: "refine_operation ai currentHtml userRequest k = Resolve currentHtml"
    using h by (intro refine_operation_empty_text[of ai currentHtml userRequest k "text"]) (blast+)
  have run: "refineLessonPlan ai currentHtml userRequest
      = \<lparr>result = Returned currentHtml, calls = Suc k, sleeps = [] @ map delay [0..<k]\<rparr>"
    using h op by (intro refineLessonPlan_run_success) (blast+)
  show "result (refineLessonPlan ai currentHtml userRequest) = Returned currentHtml"
    by (simp add: run)
  show "calls (refineLessonPlan ai currentHtml userRequest) = Suc k"
    by (simp add: run)
next
  assume "result (refineLessonPlan ai currentHtml userRequest) = Returned v \<and> currentHtml \<noteq> []"
  then show "v \<noteq> []" using refineLessonPlan_returned_nonempty by blast
qed

theorem refineLessonPlan_empty_text_keeps_artifact_witness:
  "result (refineLessonPlan (answers (Some [])) ''<html><body>Lesson</body></html>'' ''Add a quiz'')
     = Returned ''<html><body>Lesson</body></html>''
   \<and> result (refineLessonPlan (answers None) ''<html><body>Lesson</body></html>'' ''Add a quiz'')
     = Returned ''<html><body>Lesson</body></html>''"
  using refineLessonPlan_empty_text_keeps_artifact
      [of 0 "answers (Some [])" "''<html><body>Lesson</body></html>''" "''Add a quiz''" "Some []"
          "''<html><body>Lesson</body></html>''"]
    refineLessonPlan_empty_text_keeps_artifact
      [of 0 "answers None" "''<html><body>Lesson</body></html>''" "''Add a quiz''" "None"
          "''<html><body>Lesson</body></html>''"]
  by simp

section \<open>Properties of the download file name\<close>

declare digits_of.simps [simp del]

lemma digits_of_small: "n < 10 \<Longrightarrow> digits_of n = [digit_char n]"
  by (subst digits_of.simps) simp

lemma digits_of_step: "10 \<le> n \<Longrightarrow> digits_of n = digits_of (n div 10) @ [digit_char (n mod 10)]"
  by (subst digits_of.simps) simp

lemma digits_of_two: "10 \<le> n \<Longrightarrow> n < 100 \<Longrightarrow> digits_of n = [digit_char (n div 10), digit_char (n mod 10)]"
  by (simp add: digits_of_step digits_of_small)

lemma digits_of_last: "0 \<le> n \<Longrightarrow> \<exists>ds. digits_of n = ds @ [digit_char (n mod 10)]"
  by (cases "n < 10") (simp_all add: digits_of_small digits_of_step)

lemma slice_last_digits:
  assumes "10 \<le> n"
  shows "slice_last 2 (digits_of n) = [digit_char ((n div 10) mod 10), digit_char (n mod 10)]"
proof -
  have "0 \<le> n div 10" using assms by simp
  then obtain ds where "digits_of (n div 10) = ds @ [digit_char ((n div 10) mod 10)]"
    using digits_of_last by blast
  then show ?thesis using assms by (simp add: digits_of_step slice_last_def)
qed

lemma digit_char_0: "digit_char 0 = CHR ''0''"
  by code_simp

lemma pad_two_digits:
  assumes "0 \<le> n" "n < 100"
  shows "padStart 2 (CHR ''0'') (String n) = [digit_char (n div 10), digit_char (n mod 10)]"
proof (cases "n < 10")
  case True
  then show ?thesis using assms
    by (simp add: String_def digits_of_small padStart_def digit_char_0)
next
  case False
  then show ?thesis using assms
    by (simp add: String_def digits_of_two padStart_def)
qed

lemma dateStr_format:
  assumes "0 \<le> getMonth now" "getMonth now \<le> 11" "1 \<le> getDate now" "getDate now \<le> 31"
    "10 \<le> getFullYear now"
  shows "padStart 2 (CHR ''0'') (String (getMonth now + 1)) @ ''.''
         @ padStart 2 (CHR ''0'') (String (getDate now)) @ ''.''
         @ slice_last 2 (String (getFullYear now))
       = mm_dd_yy (getMonth now + 1) (getDate now) (getFullYear now)"
proof -
  have m: "padStart 2 (CHR ''0'') (String (getMonth now + 1))
      = [digit_char ((getMonth now + 1) div 10), digit_char ((getMonth now + 1) mod 10)]"
    using assms by (intro pad_two_digits) simp_all
  have d: "padStart 2 (CHR ''0'') (String (getDate now))
      = [digit_char (getDate now div 10), digit_char (getDate now mod 10)]"
    using assms by (intro pad_two_digits) simp_all
  have y: "slice_last 2 (String (getFullYear now))
      = [digit_char ((getFullYear now div 10) mod 10), digit_char (getFullYear now mod 10)]"
    using assms slice_last_digits[of "getFullYear now"] by (simp add: String_def)
  show ?thesis unfolding m d y mm_dd_yy_def by simp
qed

lemma ci_prefix_split:
  "ci_prefix pat s \<Longrightarrow> \<exists>a b. s = a @ b \<and> map upper_char a = map upper_char pat"
proof (induction pat s rule: ci_prefix.induct)
  case (1 s)
  then show ?case by simp
next
  case (2 p ps)
  then show ?case by simp
next
  case (3 p ps c cs)
  then obtain a b where "cs = a @ b" "map upper_char a = map upper_char ps" by auto
  then have "c # cs = (c # a) @ b \<and> map upper_char (c # a) = map upper_char (p # ps)"
    using 3 by simp
  then show ?case by blast
qed

declare ci_prefix.simps [simp del]

lemma title_group_split:
  "title_group s = Some t \<Longrightarrow>
   \<exists>ctag post. s = t @ ctag @ post \<and> map upper_char ctag = map upper_char ''</title>''
     \<and> (\<forall>c\<in>set t. \<not> line_terminator c)"
proof (induction s arbitrary: t)
  case Nil
  then show ?case by simp
next
  case (Cons c cs)
  show ?case
  proof (cases "ci_prefix ''</title>'' (c # cs)")
    case True
    then have "t = []" using Cons.prems by simp
    then show ?thesis using ci_prefix_split[OF True] by auto
  next
    case False
    then have nl: "\<not> line_terminator c" using Cons.prems by (auto split: if_splits)
    then obtain t' where t': "title_group cs = Some t'" "t = c # t'"
      using Cons.prems False by (auto split: if_splits)
    from Cons.IH[OF t'(1)] obtain ctag post where
      "cs = t' @ ctag @ post" "map upper_char ctag = map upper_char ''</title>''"
      "\<forall>c\<in>set t'. \<not> line_terminator c" by blast
    then have "c # cs = t @ ctag @ post \<and> map upper_char ctag = map upper_char ''</title>''
      \<and> (\<forall>c\<in>set t. \<not> line_terminator c)" using t' nl by simp
    then show ?thesis by blast
  qed
qed

lemma match_title_split:
  "match_title s = Some t \<Longrightarrow>
   \<exists>pre otag ctag post. s = pre @ otag @ t @ ctag @ post
     \<and> map upper_char otag = map upper_char ''<title>''
     \<and> map upper_char ctag = map upper_char ''</title>''
     \<and> (\<forall>c\<in>set t. \<not> line_terminator c)"
proof (induction s)
  case Nil
  then show ?case by simp
next
  case (Cons c cs)
  have rec: ?case if "match_title cs = Some t"
  proof -
    from Cons.IH[OF that] obtain pre otag ctag post where
      "cs = pre @ otag @ t @ ctag @ post"
      "map upper_char otag = map upper_char ''<title>''"
      "map upper_char ctag = map upper_char ''</title>''"
      "\<forall>c\<in>set t. \<not> line_terminator c" by blast
    then have "c # cs = (c # pre) @ otag @ t @ ctag @ post
      \<and> map upper_char otag = map upper_char ''<title>''
      \<and> map upper_char ctag = map upper_char ''</title>''
      \<and> (\<forall>c\<in>set t. \<not> line_terminator c)" by simp
    then show ?thesis by blast
  qed
  show ?case
  proof (cases "ci_prefix ''<title>'' (c # cs)")
    case False
    then have "match_title cs = Some t" using Cons.prems by simp
    then show ?thesis by (rule rec)
  next
    case True
    show ?thesis
    proof (cases "title_group (drop (length ''<title>'') (c # cs))")
      case None
      then have "match_title cs = Some t" using Cons.prems True by simp
      then show ?thesis by (rule rec)
    next
      case (Some t')
      then have tt: "t' = t" using Cons.prems True by simp
      obtain a b where ab: "c # cs = a @ b" "map upper_char a = map upper_char ''<title>''"
        using ci_prefix_split[OF True] by blast
      then have "length a = length ''<title>''" by (metis length_map)
      then have b: "drop (length ''<title>'') (c # cs) = b" using ab by simp
      from title_group_split[OF Some[unfolded b tt]] obtain ctag post where
        "b = t @ ctag @ post" "map upper_char ctag = map upper_char ''</title>''"
        "\<forall>c\<in>set t. \<not> line_terminator c" by blast
      then have "c # cs = [] @ a @ t @ ctag @ post
        \<and> map upper_char a = map upper_char ''<title>''
        \<and> map upper_char ctag = map upper_char ''</title>''
        \<and> (\<forall>c\<in>set t. \<not> line_terminator c)" using ab by simp
      then show ?thesis by blast
    qed
  qed
qed

lemma upper_title_tags:
  "map upper_char ''<title>'' = ''<TITLE>''" "map upper_char ''</title>'' = ''</TITLE>''"
  by code_simp+


lemma of_char_eq_nat: "n < 256 \<Longrightarrow> (of_char c = (n::nat)) \<longleftrightarrow> c = char_of n"
  by (metis char_of_char of_char_of mod_less)

lemma white_space_codes:
  "char_of (9::nat) = CHR 0x09" "char_of (10::nat) = CHR 0x0A" "char_of (11::nat) = CHR 0x0B"
  "char_of (12::nat) = CHR 0x0C" "char_of (13::nat) = CHR 0x0D" "char_of (32::nat) = CHR '' ''"
  "char_of (160::nat) = CHR 0xA0"
  by code_simp+

lemma white_space_chars:
  "white_space c \<longleftrightarrow>
     c \<in> {CHR 0x09, CHR 0x0A, CHR 0x0B, CHR 0x0C, CHR 0x0D, CHR '' '', CHR 0xA0}"
proof -
  have "white_space c \<longleftrightarrow>
      (of_char c = (9::nat) \<or> of_char c = (10::nat) \<or> of_char c = (11::nat) \<or> of_char c = (12::nat)
       \<or> of_char c = (13::nat) \<or> of_char c = (32::nat) \<or> of_char c = (160::nat))"
    unfolding white_space_def Let_def by arith
  also have "\<dots> \<longleftrightarrow> c \<in> {char_of (9::nat), char_of (10::nat), char_of (11::nat), char_of (12::nat),
      char_of (13::nat), char_of (32::nat), char_of (160::nat)}"
    by (simp add: of_char_eq_nat)
  finally show ?thesis unfolding white_space_codes .
qed

lemma trim_split:
  "\<exists>l r. s = l @ trim s @ r \<and> (\<forall>c\<in>set l. white_space c) \<and> (\<forall>c\<in>set r. white_space c)
     \<and> (trim s = [] \<or> (\<not> white_space (hd (trim s)) \<and> \<not> white_space (last (trim s))))"
proof -
  define l where "l = takeWhile white_space s"
  define m where "m = dropWhile white_space s"
  define r where "r = rev (takeWhile white_space (rev m))"
  have t: "trim s = rev (dropWhile white_space (rev m))" by (simp add: trim_def m_def)
  have "rev m = takeWhile white_space (rev m) @ dropWhile white_space (rev m)" by simp
  then have "rev (rev m) = rev (takeWhile white_space (rev m) @ dropWhile white_space (rev m))"
    by (rule arg_cong)
  then have mm: "m = trim s @ r" unfolding t r_def by (simp only: rev_rev_ident rev_append)
  have "s = l @ m" by (simp add: l_def m_def)
  then have s: "s = l @ trim s @ r" using mm by metis
  have wl: "\<forall>c\<in>set l. white_space c" unfolding l_def by (meson set_takeWhileD)
  have wr: "\<forall>c\<in>set r. white_space c" unfolding r_def by (auto dest: set_takeWhileD)
  have ends: "\<not> white_space (hd (trim s)) \<and> \<not> white_space (last (trim s))" if ne: "trim s \<noteq> []"
  proof -
    have d: "dropWhile white_space (rev m) \<noteq> []" using ne t by simp
    then have "\<not> white_space (hd (dropWhile white_space (rev m)))" by (rule hd_dropWhile)
    then have la: "\<not> white_space (last (trim s))" using d by (simp add: t last_rev)
    have "m \<noteq> []" using mm ne by simp
    then have "\<not> white_space (hd m)" unfolding m_def by (rule hd_dropWhile)
    moreover have "hd m = hd (trim s)" using mm ne by (metis hd_append2)
    ultimately show ?thesis using la by simp
  qed
  show ?thesis using s wl wr ends by blast
qed


text \<open>
  Claim C8. For an artifact that matches a title element, the download name is the title
  text with every character of \<open>< > : " / \ | ? *\<close> replaced by \<open>-\<close> and the surrounding
  white space trimmed, followed by \<open>-sway-\<close>, the current date as \<open>MM.DD.YY\<close> and
  \<open>.html\<close>; the title text is what stands between the first opening and closing title tags
  on one line. Trimmed means: the replaced title is the base of the name between two runs
  of white space, and the base neither starts nor ends with white space.
\<close>

theorem handleDownload_file_name:
  assumes "match_title html = Some title"
    and "0 \<le> getMonth now" "getMonth now \<le> 11" "1 \<le> getDate now" "getDate now \<le> 31"
    and "10 \<le> getFullYear now"
  shows "handleDownload html now
      = Some (trim (map (\<lambda>c. if c \<in> {CHR ''<'', CHR ''>'', CHR '':'', CHR 0x22, CHR ''/'', CHR 0x5C,
                                      CHR ''|'', CHR ''?'', CHR ''*''} then CHR ''-'' else c) title)
              @ ''-sway-'' @ mm_dd_yy (getMonth now + 1) (getDate now) (getFullYear now) @ ''.html'')
    \<and> (\<exists>pre otag ctag post. html = pre @ otag @ title @ ctag @ post
          \<and> map upper_char otag = ''<TITLE>'' \<and> map upper_char ctag = ''</TITLE>'')
    \<and> (\<exists>base l r.
          handleDownload html now
            = Some (base @ ''-sway-'' @ mm_dd_yy (getMonth now + 1) (getDate now) (getFullYear now)
                    @ ''.html'')
          \<and> map (\<lambda>c. if c \<in> {CHR ''<'', CHR ''>'', CHR '':'', CHR 0x22, CHR ''/'', CHR 0x5C,
                               CHR ''|'', CHR ''?'', CHR ''*''} then CHR ''-'' else c) title
              = l @ base @ r
          \<and> set l \<subseteq> {CHR 0x09, CHR 0x0A, CHR 0x0B, CHR 0x0C, CHR 0x0D, CHR '' '', CHR 0xA0}
          \<and> set r \<subseteq> {CHR 0x09, CHR 0x0A, CHR 0x0B, CHR 0x0C, CHR 0x0D, CHR '' '', CHR 0xA0}
          \<and> (base = []
               \<or> (hd base \<notin> {CHR 0x09, CHR 0x0A, CHR 0x0B, CHR 0x0C, CHR 0x0D, CHR '' '', CHR 0xA0}
                  \<and> last base \<notin> {CHR 0x09, CHR 0x0A, CHR 0x0B, CHR 0x0C, CHR 0x0D, CHR '' '', CHR 0xA0})))"
proof -
  define replaced where
    "replaced = map (\<lambda>c. if c \<in> {CHR ''<'', CHR ''>'', CHR '':'', CHR 0x22, CHR ''/'', CHR 0x5C,
                               CHR ''|'', CHR ''?'', CHR ''*''} then CHR ''-'' else c) title"
  define dateStr where "dateStr = mm_dd_yy (getMonth now + 1) (getDate now) (getFullYear now)"
  have ne: "html \<noteq> []" using assms(1) by (cases html) simp_all
  have d: "padStart 2 (CHR ''0'') (String (getMonth now + 1)) @ ''.''
         @ padStart 2 (CHR ''0'') (String (getDate now)) @ ''.''
         @ slice_last 2 (String (getFullYear now))
       = dateStr"
    unfolding dateStr_def using assms(2-6) by (rule dateStr_format)
  have s: "sanitize title = replaced"
    by (simp add: sanitize_def unsafe_chars_def replaced_def)
  have "handleDownload html now
      = Some (trim (sanitize title) @ ''-sway-''
              @ (padStart 2 (CHR ''0'') (String (getMonth now + 1)) @ ''.''
                 @ padStart 2 (CHR ''0'') (String (getDate now)) @ ''.''
                 @ slice_last 2 (String (getFullYear now))) @ ''.html'')"
    using ne assms(1) by (simp add: handleDownload_def Let_def)
  then have name: "handleDownload html now = Some (trim replaced @ ''-sway-'' @ dateStr @ ''.html'')"
    by (simp only: s d)
  from match_title_split[OF assms(1)] obtain pre otag ctag post where
    "html = pre @ otag @ title @ ctag @ post"
    "map upper_char otag = map upper_char ''<title>''"
    "map upper_char ctag = map upper_char ''</title>''" by blast
  then have "html = pre @ otag @ title @ ctag @ post
          \<and> map upper_char otag = ''<TITLE>'' \<and> map upper_char ctag = ''</TITLE>''"
    by (simp only: upper_title_tags)
  then have tags: "\<exists>pre otag ctag post. html = pre @ otag @ title @ ctag @ post
          \<and> map upper_char otag = ''<TITLE>'' \<and> map upper_char ctag = ''</TITLE>''"
    by (intro exI)
  from trim_split[of replaced] obtain l r where lr: "replaced = l @ trim replaced @ r"
    "\<forall>c\<in>set l. white_space c" "\<forall>c\<in>set r. white_space c"
    "trim replaced = [] \<or> (\<not> white_space (hd (trim replaced)) \<and> \<not> white_space (last (trim replaced)))"
    by blast
  have wl: "set l \<subseteq> {CHR 0x09, CHR 0x0A, CHR 0x0B, CHR 0x0C, CHR 0x0D, CHR '' '', CHR 0xA0}"
  proof (rule subsetI)
    fix c assume "c \<in> set l"
    then have "white_space c" using lr(2) by blast
    then show "c \<in> {CHR 0x09, CHR 0x0A, CHR 0x0B, CHR 0x0C, CHR 0x0D, CHR '' '', CHR 0xA0}"
      by (simp only: white_space_chars)
  qed
  have wr: "set r \<subseteq> {CHR 0x09, CHR 0x0A, CHR 0x0B, CHR 0x0C, CHR 0x0D, CHR '' '', CHR 0xA0}"
  proof (rule subsetI)
    fix c assume "c \<in> set r"
    then have "white_space c" using lr(3) by blast
    then show "c \<in> {CHR 0x09, CHR 0x0A, CHR 0x0B, CHR 0x0C, CHR 0x0D, CHR '' '', CHR 0xA0}"
      by (simp only: white_space_chars)
  qed
  have ends: "trim replaced = []
       \<or> (hd (trim replaced) \<notin> {CHR 0x09, CHR 0x0A, CHR 0x0B, CHR 0x0C, CHR 0x0D, CHR '' '', CHR 0xA0}
          \<and> last (trim replaced) \<notin> {CHR 0x09, CHR 0x0A, CHR 0x0B, CHR 0x0C, CHR 0x0D, CHR '' '', CHR 0xA0})"
    using lr(4) unfolding white_space_chars .
  have "handleDownload html now = Some (trim replaced @ ''-sway-'' @ dateStr @ ''.html'')
      \<and> replaced = l @ trim replaced @ r
      \<and> set l \<subseteq> {CHR 0x09, CHR 0x0A, CHR 0x0B, CHR 0x0C, CHR 0x0D, CHR '' '', CHR 0xA0}
      \<and> set r \<subseteq> {CHR 0x09, CHR 0x0A, CHR 0x0B, CHR 0x0C, CHR 0x0D, CHR '' '', CHR 0xA0}
      \<and> (trim replaced = []
           \<or> (hd (trim replaced) \<notin> {CHR 0x09, CHR 0x0A, CHR 0x0B, CHR 0x0C, CHR 0x0D, CHR '' '', CHR 0xA0}
              \<and> last (trim replaced) \<notin> {CHR 0x09, CHR 0x0A, CHR 0x0B, CHR 0x0C, CHR 0x0D, CHR '' '', CHR 0xA0}))"
    by (intro conjI name lr(1) wl wr ends)
  then have trimmed: "\<exists>base l r.
          handleDownload html now = Some (base @ ''-sway-'' @ dateStr @ ''.html'')
          \<and> replaced = l @ base @ r
          \<and> set l \<subseteq> {CHR 0x09, CHR 0x0A, CHR 0x0B, CHR 0x0C, CHR 0x0D, CHR '' '', CHR 0xA0}
          \<and> set r \<subseteq> {CHR 0x09, CHR 0x0A, CHR 0x0B, CHR 0x0C, CHR 0x0D, CHR '' '', CHR 0xA0}
          \<and> (base = []
               \<or> (hd base \<notin> {CHR 0x09, CHR 0x0A, CHR 0x0B, CHR 0x0C, CHR 0x0D, CHR '' '', CHR 0xA0}
                  \<and> last base \<notin> {CHR 0x09, CHR 0x0A, CHR 0x0B, CHR 0x0C, CHR 0x0D, CHR '' '', CHR 0xA0}))"
    by (intro exI)
  show ?thesis
    unfolding replaced_def[symmetric] dateStr_def[symmetric]
    by (intro conjI name tags trimmed)
qed


theorem handleDownload_file_name_witness:
  "match_title coffee_shop_page = Some ''Coffee Shop: Level A2''
   \<and> handleDownload coffee_shop_page first_of_november_2026
       = Some ''Coffee Shop- Level A2-sway-11.01.26.html''
   \<and> match_title padded_title_page = Some ''  Coffee Shop: Level A2 ''
   \<and> handleDownload padded_title_page first_of_november_2026
       = Some ''Coffee Shop- Level A2-sway-11.01.26.html''"
proof -
  have m: "match_title coffee_shop_page = Some ''Coffee Shop: Level A2''"
    by code_simp
  have mp: "match_title padded_title_page = Some ''  Coffee Shop: Level A2 ''"
    by code_simp
  have r: "0 \<le> getMonth first_of_november_2026" "getMonth first_of_november_2026 \<le> 11"
    "1 \<le> getDate first_of_november_2026" "getDate first_of_november_2026 \<le> 31"
    "10 \<le> getFullYear first_of_november_2026"
    by (simp_all add: first_of_november_2026_def)
  have t: "trim (map (\<lambda>c. if c \<in> {CHR ''<'', CHR ''>'', CHR '':'', CHR 0x22, CHR ''/'', CHR 0x5C,
                                      CHR ''|'', CHR ''?'', CHR ''*''} then CHR ''-'' else c)
                 ''Coffee Shop: Level A2'') = ''Coffee Shop- Level A2''"
    by code_simp
  have tp: "trim (map (\<lambda>c. if c \<in> {CHR ''<'', CHR ''>'', CHR '':'', CHR 0x22, CHR ''/'', CHR 0x5C,
                                      CHR ''|'', CHR ''?'', CHR ''*''} then CHR ''-'' else c)
                 ''  Coffee Shop: Level A2 '') = ''Coffee Shop- Level A2''"
    by code_simp
  have d: "mm_dd_yy (getMonth first_of_november_2026 + 1) (getDate first_of_november_2026)
      (getFullYear first_of_november_2026) = ''11.01.26''"
    by code_simp
  have a: "handleDownload coffee_shop_page first_of_november_2026
      = Some (''Coffee Shop- Level A2'' @ ''-sway-'' @ ''11.01.26'' @ ''.html'')"
    using handleDownload_file_name[OF m r, THEN conjunct1] by (simp only: t d)
  have b: "handleDownload padded_title_page first_of_november_2026
      = Some (''Coffee Shop- Level A2'' @ ''-sway-'' @ ''11.01.26'' @ ''.html'')"
    using handleDownload_file_name[OF mp r, THEN conjunct1] by (simp only: tp d)
  show ?thesis using m mp a b by simp
qed

section \<open>Properties of the keyframe extraction\<close>








section \<open>Properties of the assembly\<close>

lemma split_first_Some: "split_first pat s = Some (p, f) \<Longrightarrow> s = p @ pat @ f"
proof (induction s arbitrary: p)
  case Nil
  then show ?case by (simp split: if_splits)
next
  case (Cons c cs)
  show ?case
  proof (cases "prefix pat (c # cs)")
    case True
    then have "p = []" "f = drop (length pat) (c # cs)" using Cons.prems by simp_all
    moreover have "c # cs = pat @ drop (length pat) (c # cs)"
      using True by (metis append_eq_conv_conj prefixE)
    ultimately show ?thesis by simp
  next
    case False
    then obtain p' where "split_first pat cs = Some (p', f)" "p = c # p'"
      using Cons.prems by auto
    then show ?thesis using Cons.IH by simp
  qed
qed

lemma split_first_None: "split_first pat s = None \<longleftrightarrow> \<not> sublist pat s"
  by (induction s) (auto simp: sublist_Cons_right)

lemma str_includes_split_first: "str_includes s pat \<longleftrightarrow> split_first pat s \<noteq> None"
  by (simp add: split_first_None str_includes_sublist)

lemma split_first_pre:
  "pat \<noteq> [] \<Longrightarrow> split_first pat s = Some (p, f) \<Longrightarrow> \<not> sublist pat p"
proof (induction s arbitrary: p)
  case Nil
  then show ?case by simp
next
  case (Cons c cs)
  show ?case
  proof (cases "prefix pat (c # cs)")
    case True
    then have "p = []" using Cons.prems by simp
    then show ?thesis using Cons.prems(1) by simp
  next
    case False
    then obtain p' where p': "split_first pat cs = Some (p', f)" "p = c # p'"
      using Cons.prems by auto
    have cs: "cs = p' @ pat @ f" using p'(1) by (rule split_first_Some)
    have "\<not> prefix pat (c # p')"
    proof
      assume "prefix pat (c # p')"
      then have "prefix pat (c # p' @ pat @ f)"
        by (metis append_Cons prefix_prefix)
      then show False using False cs by simp
    qed
    moreover have "\<not> sublist pat p'" using Cons.IH[OF Cons.prems(1) p'(1)] .
    ultimately show ?thesis using p'(2) by (simp add: sublist_Cons_right)
  qed
qed

lemma split_first_at:
  "pat \<noteq> [] \<Longrightarrow> \<not> sublist pat (x @ butlast pat) \<Longrightarrow> split_first pat (x @ pat @ y) = Some (x, y)"
proof (induction x)
  case Nil
  then obtain c cs where "pat @ y = c # cs" by (cases pat) auto
  moreover have "prefix pat (pat @ y)" by simp
  moreover have "drop (length pat) (pat @ y) = y" by simp
  ultimately show ?case by (metis append_Nil split_first.simps(2))
next
  case (Cons c x)
  have np: "\<not> prefix pat (c # x @ pat @ y)"
  proof
    assume a: "prefix pat (c # x @ pat @ y)"
    have e: "c # x @ pat @ y = ((c # x) @ butlast pat) @ (last pat # y)"
      using Cons.prems(1) by (metis append.assoc append_Cons append_Nil append_butlast_last_id)
    have "prefix pat (((c # x) @ butlast pat) @ (last pat # y))"
      using a unfolding e .
    moreover have "length pat \<le> length ((c # x) @ butlast pat)" by simp
    ultimately have "prefix pat ((c # x) @ butlast pat)"
      by (metis prefix_length_prefix prefixI)
    then show False using Cons.prems(2) by (meson prefix_imp_sublist)
  qed
  have "\<not> sublist pat (x @ butlast pat)"
    using Cons.prems(2) by (simp add: sublist_Cons_right)
  from Cons.IH[OF Cons.prems(1) this] show ?case using np by simp
qed

lemma GetSubstitution_plain: "plain_template t \<Longrightarrow> GetSubstitution m p f t = t"
  by (induction t rule: plain_template.induct) auto

lemma plain_template_Cons: "plain_template (c # t) \<Longrightarrow> plain_template t"
  by (cases t) auto

lemma plain_template_append:
  "plain_template a \<Longrightarrow> plain_template b \<Longrightarrow>
   (a = [] \<or> last a \<noteq> CHR ''$'' \<or> b = []
    \<or> \<not> (hd b = CHR ''$'' \<or> hd b = CHR ''&'' \<or> hd b = CHR 0x60 \<or> hd b = CHR 0x27)) \<Longrightarrow>
   plain_template (a @ b)"
proof (induction a rule: plain_template.induct)
  case (1 c d rest)
  then show ?case by auto
next
  case (2 c)
  then show ?case by (cases b) auto
next
  case 3
  then show ?case by simp
qed

lemma GetSubstitution_append:
  "plain_template t2 \<Longrightarrow>
   \<not> (hd t2 = CHR ''$'' \<or> hd t2 = CHR ''&'' \<or> hd t2 = CHR 0x60 \<or> hd t2 = CHR 0x27) \<Longrightarrow>
   GetSubstitution m p f (t1 @ t2) = GetSubstitution m p f t1 @ t2"
proof (induction m p f t1 rule: GetSubstitution.induct)
  case (1 m p f c d rest)
  then show ?case by simp
next
  case (2 m p f c)
  then show ?case by (cases t2) (simp_all add: GetSubstitution_plain)
next
  case (3 m p f)
  then show ?case by (simp add: GetSubstitution_plain)
qed

lemma replace_plain:
  "plain_template t \<Longrightarrow>
   replace s pat t = (case split_first pat s of None \<Rightarrow> s | Some (p, f) \<Rightarrow> p @ t @ f)"
  by (simp add: replace_def GetSubstitution_plain split: option.splits)


lemma opens_first_prefix:
  "opens_first y \<Longrightarrow> prefix v y \<Longrightarrow> CHR ''>'' \<in> set v \<Longrightarrow> CHR ''<'' \<in> set v"
proof (induction y arbitrary: v)
  case Nil
  then show ?case by simp
next
  case (Cons c cs)
  then obtain v' where v: "v = c # v'" "prefix v' cs"
    by (cases v) auto
  show ?case
  proof (cases "c = CHR ''<''")
    case True
    then show ?thesis using v by simp
  next
    case False
    then have "c \<noteq> CHR ''>''" "opens_first cs" using Cons.prems(1) by (auto split: if_splits)
    then show ?thesis using Cons.IH[of v'] v Cons.prems(3) by auto
  qed
qed

lemma closes_first_prefix:
  "closes_first y \<Longrightarrow> prefix v y \<Longrightarrow> CHR ''<'' \<in> set v \<Longrightarrow> CHR ''>'' \<in> set v"
proof (induction y arbitrary: v)
  case Nil
  then show ?case by simp
next
  case (Cons c cs)
  then obtain v' where v: "v = c # v'" "prefix v' cs"
    by (cases v) auto
  show ?case
  proof (cases "c = CHR ''>''")
    case True
    then show ?thesis using v by simp
  next
    case False
    then have "c \<noteq> CHR ''<''" "closes_first cs" using Cons.prems(1) by (auto split: if_splits)
    then show ?thesis using Cons.IH[of v'] v Cons.prems(3) by auto
  qed
qed

lemma closes_last_suffix:
  "closes_last x \<Longrightarrow> suffix u x \<Longrightarrow> CHR ''<'' \<in> set u \<Longrightarrow> CHR ''>'' \<in> set u"
  using closes_first_prefix[of "rev x" "rev u"] by (simp add: closes_last_def suffix_to_prefix)

lemma opens_first_append: "opens_first a \<Longrightarrow> opens_first (a @ b)"
  by (induction a) auto

lemma closes_first_append: "closes_first a \<Longrightarrow> closes_first (a @ b)"
  by (induction a) auto

lemma closes_last_append: "closes_last b \<Longrightarrow> closes_last (a @ b)"
  by (simp add: closes_last_def closes_first_append)

text \<open>
  A pattern that starts with its only \<open><\<close> and ends with its only \<open>>\<close> cannot straddle
  the seam of two texts when the right one opens first or the left one closes last.
\<close>

lemma bracket_pattern_split:
  assumes "pat = CHR ''<'' # mid @ [CHR ''>'']" "CHR ''<'' \<notin> set mid" "CHR ''>'' \<notin> set mid"
    and "pat = u @ v" "u \<noteq> []" "v \<noteq> []"
  shows "CHR ''<'' \<in> set u \<and> CHR ''>'' \<notin> set u \<and> CHR ''>'' \<in> set v \<and> CHR ''<'' \<notin> set v"
proof -
  obtain u' where u: "u = CHR ''<'' # u'" "u' @ v = mid @ [CHR ''>'']"
    using assms(1,4,5) by (cases u) auto
  obtain v' where v: "v = v' @ [CHR ''>'']"
    using u(2) assms(6) by (metis append_butlast_last_id last_appendR last_snoc)
  then have "u' @ v' = mid" using u(2) by simp
  then have "set u' \<subseteq> set mid" "set v' \<subseteq> set mid" by auto
  then show ?thesis using u(1) v assms(2,3) by auto
qed

lemma no_straddle:
  assumes pat: "pat = CHR ''<'' # mid @ [CHR ''>'']" "CHR ''<'' \<notin> set mid" "CHR ''>'' \<notin> set mid"
    and seam: "opens_first y \<or> closes_last x"
    and sub: "sublist pat (x @ y)"
  shows "sublist pat x \<or> sublist pat y"
proof -
  from sub consider "sublist pat x" | "sublist pat y"
    | u v where "pat = u @ v" "suffix u x" "prefix v y"
    unfolding sublist_append by blast
  then show ?thesis
  proof cases
    case 1
    then show ?thesis by simp
  next
    case 2
    then show ?thesis by simp
  next
    case 3
    show ?thesis
    proof (cases "u = [] \<or> v = []")
      case True
      then show ?thesis using 3 by (auto intro: prefix_imp_sublist suffix_imp_sublist)
    next
      case False
      then have b: "CHR ''<'' \<in> set u \<and> CHR ''>'' \<notin> set u \<and> CHR ''>'' \<in> set v \<and> CHR ''<'' \<notin> set v"
        using bracket_pattern_split[OF pat 3(1)] by simp
      from seam show ?thesis
      proof
        assume "opens_first y"
        then show ?thesis using opens_first_prefix[OF _ 3(3)] b by blast
      next
        assume "closes_last x"
        then show ?thesis using closes_last_suffix[OF _ 3(2)] b by blast
      qed
    qed
  qed
qed

lemma marker_shape:
  "CONTENT_PLACEHOLDER = CHR ''<'' # ''!-- CONTENT_PLACEHOLDER --'' @ [CHR ''>'']"
  "CHR ''<'' \<notin> set ''!-- CONTENT_PLACEHOLDER --''"
  "CHR ''>'' \<notin> set ''!-- CONTENT_PLACEHOLDER --''"
  by (simp_all add: CONTENT_PLACEHOLDER_def)

lemma body_end_shape:
  "BODY_END = CHR ''<'' # ''/body'' @ [CHR ''>'']"
  "CHR ''<'' \<notin> set ''/body''"
  "CHR ''>'' \<notin> set ''/body''"
  by (simp_all add: BODY_END_def)

lemmas marker_no_straddle = no_straddle[OF marker_shape]
lemmas body_end_no_straddle = no_straddle[OF body_end_shape]


lemma first_occurrence:
  assumes pat: "pat = CHR ''<'' # mid @ [CHR ''>'']" "CHR ''<'' \<notin> set mid" "CHR ''>'' \<notin> set mid"
    and "\<not> sublist pat x"
  shows "split_first pat (x @ pat @ y) = Some (x, y)"
proof -
  have ne: "pat \<noteq> []" using pat(1) by simp
  have b: "butlast pat = CHR ''<'' # mid" using pat(1) by (simp add: butlast_append)
  have "\<not> sublist pat (butlast pat)"
  proof
    assume "sublist pat (butlast pat)"
    then have "length pat \<le> length (butlast pat)" by (rule sublist_length_le)
    moreover have "length (butlast pat) < length pat" using ne by (cases pat) simp_all
    ultimately show False by linarith
  qed
  moreover have "opens_first (butlast pat)" unfolding b by simp
  ultimately have "\<not> sublist pat (x @ butlast pat)"
    using no_straddle[OF pat, of "butlast pat" x] assms(4) by blast
  then show ?thesis using ne by (rule split_first_at[rotated])
qed

lemma body_end_template: "plain_template t \<Longrightarrow> plain_template (t @ BODY_END)"
  by (rule plain_template_append) (simp_all add: BODY_END_def)

lemma insert_script:
  "plain_template script \<Longrightarrow>
   replace h BODY_END (script @ BODY_END)
     = (case split_first BODY_END h of None \<Rightarrow> h | Some (a, b) \<Rightarrow> a @ script @ BODY_END @ b)"
  by (simp add: replace_plain body_end_template split: option.splits)

lemma opens_first_body_end: "opens_first (BODY_END @ b)"
  by (simp add: BODY_END_def)

lemma insert_script_keeps_marker_out:
  assumes "\<not> sublist CONTENT_PLACEHOLDER h" "\<not> sublist CONTENT_PLACEHOLDER script"
    "opens_first script"
  shows "\<not> sublist CONTENT_PLACEHOLDER
           (case split_first BODY_END h of None \<Rightarrow> h | Some (a, b) \<Rightarrow> a @ script @ BODY_END @ b)"
proof (cases "split_first BODY_END h")
  case None
  then show ?thesis using assms(1) by simp
next
  case (Some ab)
  obtain a b where ab: "ab = (a, b)" by (cases ab)
  have h: "h = a @ BODY_END @ b" using Some ab split_first_Some by blast
  have na: "\<not> sublist CONTENT_PLACEHOLDER a"
    using assms(1) unfolding h by (meson sublist_append)
  have nb: "\<not> sublist CONTENT_PLACEHOLDER (BODY_END @ b)"
    using assms(1) unfolding h by (meson sublist_append)
  have "\<not> sublist CONTENT_PLACEHOLDER (a @ script)"
    using marker_no_straddle[of script a] na assms(2,3) by blast
  then have "\<not> sublist CONTENT_PLACEHOLDER ((a @ script) @ (BODY_END @ b))"
    using marker_no_straddle[of "BODY_END @ b" "a @ script"] nb opens_first_body_end by blast
  then show ?thesis using Some ab by simp
qed

lemma assemble_with_marker:
  assumes shell: "clean_html shell = pre @ CONTENT_PLACEHOLDER @ post"
    "\<not> sublist CONTENT_PLACEHOLDER pre"
    and content: "plain_template (clean_html contentHtml)"
    and script: "plain_template (clean_javascript script)"
  shows "assemble shell contentHtml script
      = (case split_first BODY_END (pre @ clean_html contentHtml @ post) of
           None \<Rightarrow> pre @ clean_html contentHtml @ post
         | Some (a, b) \<Rightarrow> a @ clean_javascript script @ BODY_END @ b)"
proof -
  have sp: "split_first CONTENT_PLACEHOLDER (clean_html shell) = Some (pre, post)"
    unfolding shell(1) using shell(2) by (rule first_occurrence[OF marker_shape])
  then have inc: "str_includes (clean_html shell) CONTENT_PLACEHOLDER"
    by (simp add: str_includes_split_first)
  have "replace (clean_html shell) CONTENT_PLACEHOLDER (clean_html contentHtml)
      = pre @ clean_html contentHtml @ post"
    using content sp by (simp add: replace_plain)
  then have "assemble shell contentHtml script
      = replace (pre @ clean_html contentHtml @ post) BODY_END (clean_javascript script @ BODY_END)"
    using inc by (simp add: assemble_def Let_def)
  then show ?thesis using script by (simp only: insert_script)
qed

lemma generateLessonPlan_returns:
  assumes "stage ai PROMPT_ARCHITECT
             (Text userInput # map (\<lambda>att. InlineData (mimeType att) (att_data att)) attachments)
           = Returned blueprint"
    "stage ai PROMPT_ASSET_MANAGER [Text blueprint] = Returned assets"
    "stage ai PROMPT_SHELL [Text ''Create shell for topic based on blueprint content.'']
       = Returned shell"
    "stage ai PROMPT_CONTENT [Text (blueprint_and_assets blueprint assets)] = Returned contentHtml"
    "stage ai PROMPT_LOGIC [Text (blueprint_and_assets blueprint assets)] = Returned script"
  shows "generateLessonPlan ai userInput attachments = Returned (assemble shell contentHtml script)"
  using assms by (simp add: generateLessonPlan_def Let_def)


lemma stage_first_try:
  "ai systemPrompt userContent 0 = Resolve (Some t) \<Longrightarrow> stage ai systemPrompt userContent = Returned t"
  by (simp add: stage_def withRetry_def loop_unfold_ok callGemini_def)

lemma scripted_run:
  "generateLessonPlan (scripted shell contentHtml script) userInput attachments
     = Returned (assemble shell contentHtml script)"
  by (rule generateLessonPlan_returns[where blueprint = "''# Blueprint''" and assets = "''# Blueprint''"])
     (simp_all add: stage_first_try)

text \<open>
  Claim C1 as stated fails: a shell that carries the marker twice keeps the second one,
  since \<open>replace\<close> with a string replaces the first occurrence only.
\<close>

theorem generateLessonPlan_marker_counterexample:
  "generateLessonPlan (scripted shell_with_two_markers content_card script_block) ''Coffee shop'' []
     = Returned ''<html><body><div>X</div><!-- CONTENT_PLACEHOLDER --><script>AOS.init();</script></body></html>''
   \<and> str_includes shell_with_two_markers CONTENT_PLACEHOLDER
   \<and> str_includes
         ''<html><body><div>X</div><!-- CONTENT_PLACEHOLDER --><script>AOS.init();</script></body></html>''
         CONTENT_PLACEHOLDER"
proof -
  have a: "assemble shell_with_two_markers content_card script_block
      = ''<html><body><div>X</div><!-- CONTENT_PLACEHOLDER --><script>AOS.init();</script></body></html>''"
    by code_simp
  have b: "str_includes shell_with_two_markers CONTENT_PLACEHOLDER"
    by code_simp
  have c: "str_includes
         ''<html><body><div>X</div><!-- CONTENT_PLACEHOLDER --><script>AOS.init();</script></body></html>''
         CONTENT_PLACEHOLDER"
    by code_simp
  show ?thesis using scripted_run[of shell_with_two_markers content_card script_block] a b c
    by simp
qed

text \<open>
  Claim C1, amended. When the five stages return, the pipeline returns the assembled
  document. If the cleaned shell carries the marker exactly once, and the cleaned content
  and the cleaned script are free of the marker and of the replacement patterns
  \<open>$$\<close>, \<open>$&\<close>, \<open>$`\<close>, \<open>$'\<close>, the content opening with \<open><\<close> and closing with \<open>>\<close> as
  its first and last angle brackets and the script opening with \<open><\<close>, then the document
  contains no marker, and it is the shell with the cleaned content in the place of the
  marker, the script being inserted before the first closing body tag.
\<close>

theorem generateLessonPlan_replaces_marker:
  assumes "stage ai PROMPT_ARCHITECT
             (Text userInput # map (\<lambda>att. InlineData (mimeType att) (att_data att)) attachments)
           = Returned blueprint"
    "stage ai PROMPT_ASSET_MANAGER [Text blueprint] = Returned assets"
    "stage ai PROMPT_SHELL [Text ''Create shell for topic based on blueprint content.'']
       = Returned shell"
    "stage ai PROMPT_CONTENT [Text (blueprint_and_assets blueprint assets)] = Returned contentHtml"
    "stage ai PROMPT_LOGIC [Text (blueprint_and_assets blueprint assets)] = Returned script"
    and shell: "clean_html shell = pre @ CONTENT_PLACEHOLDER @ post"
      "\<not> str_includes pre CONTENT_PLACEHOLDER" "\<not> str_includes post CONTENT_PLACEHOLDER"
    and content: "\<not> str_includes (clean_html contentHtml) CONTENT_PLACEHOLDER"
      "plain_template (clean_html contentHtml)"
      "opens_first (clean_html contentHtml)" "closes_last (clean_html contentHtml)"
    and script: "\<not> str_includes (clean_javascript script) CONTENT_PLACEHOLDER"
      "plain_template (clean_javascript script)" "opens_first (clean_javascript script)"
  shows "generateLessonPlan ai userInput attachments = Returned (assemble shell contentHtml script)
    \<and> \<not> str_includes (assemble shell contentHtml script) CONTENT_PLACEHOLDER
    \<and> assemble shell contentHtml script
        = (case split_first BODY_END (pre @ clean_html contentHtml @ post) of
             None \<Rightarrow> pre @ clean_html contentHtml @ post
           | Some (a, b) \<Rightarrow> a @ clean_javascript script @ BODY_END @ b)"
proof -
  have run: "generateLessonPlan ai userInput attachments = Returned (assemble shell contentHtml script)"
    using assms(1-5) by (rule generateLessonPlan_returns)
  have npre: "\<not> sublist CONTENT_PLACEHOLDER pre" and npost: "\<not> sublist CONTENT_PLACEHOLDER post"
    and nc: "\<not> sublist CONTENT_PLACEHOLDER (clean_html contentHtml)"
    and ns: "\<not> sublist CONTENT_PLACEHOLDER (clean_javascript script)"
    using shell(2,3) content(1) script(1) by (simp_all add: str_includes_sublist)
  have eq: "assemble shell contentHtml script
        = (case split_first BODY_END (pre @ clean_html contentHtml @ post) of
             None \<Rightarrow> pre @ clean_html contentHtml @ post
           | Some (a, b) \<Rightarrow> a @ clean_javascript script @ BODY_END @ b)"
    using shell(1) npre content(2) script(2) by (rule assemble_with_marker)
  have "\<not> sublist CONTENT_PLACEHOLDER (pre @ clean_html contentHtml)"
    using marker_no_straddle[of "clean_html contentHtml" pre] npre nc content(3) by blast
  moreover have "closes_last (pre @ clean_html contentHtml)"
    using content(4) by (rule closes_last_append)
  ultimately have "\<not> sublist CONTENT_PLACEHOLDER ((pre @ clean_html contentHtml) @ post)"
    using marker_no_straddle[of post "pre @ clean_html contentHtml"] npost by blast
  then have "\<not> sublist CONTENT_PLACEHOLDER (pre @ clean_html contentHtml @ post)" by simp
  then have "\<not> sublist CONTENT_PLACEHOLDER (assemble shell contentHtml script)"
    unfolding eq using ns script(3) by (rule insert_script_keeps_marker_out)
  then have free: "\<not> str_includes (assemble shell contentHtml script) CONTENT_PLACEHOLDER"
    by (simp add: str_includes_sublist)
  show ?thesis using run free eq by blast
qed

theorem generateLessonPlan_replaces_marker_witness:
  "generateLessonPlan (scripted shell_with_marker content_card script_block) ''Coffee shop'' []
     = Returned ''<html><body><div>X</div><script>AOS.init();</script></body></html>''
   \<and> \<not> str_includes ''<html><body><div>X</div><script>AOS.init();</script></body></html>''
         CONTENT_PLACEHOLDER"
proof -
  have sh: "clean_html shell_with_marker = ''<html><body>'' @ CONTENT_PLACEHOLDER @ ''</body></html>''"
    by code_simp
  have h: "\<not> str_includes ''<html><body>'' CONTENT_PLACEHOLDER"
    "\<not> str_includes ''</body></html>'' CONTENT_PLACEHOLDER"
    "\<not> str_includes (clean_html content_card) CONTENT_PLACEHOLDER"
    "plain_template (clean_html content_card)"
    "opens_first (clean_html content_card)" "closes_last (clean_html content_card)"
    "\<not> str_includes (clean_javascript script_block) CONTENT_PLACEHOLDER"
    "plain_template (clean_javascript script_block)" "opens_first (clean_javascript script_block)"
    by code_simp+
  have v: "(case split_first BODY_END (''<html><body>'' @ clean_html content_card @ ''</body></html>'') of
             None \<Rightarrow> ''<html><body>'' @ clean_html content_card @ ''</body></html>''
           | Some (a, b) \<Rightarrow> a @ clean_javascript script_block @ BODY_END @ b)
       = ''<html><body><div>X</div><script>AOS.init();</script></body></html>''"
    by code_simp
  note t = generateLessonPlan_replaces_marker
      [of "scripted shell_with_marker content_card script_block" "''Coffee shop''" "[]"
          "''# Blueprint''" "''# Blueprint''" shell_with_marker content_card script_block
          "''<html><body>''" "''</body></html>''", OF _ _ _ _ _ sh h]
  have "generateLessonPlan (scripted shell_with_marker content_card script_block) ''Coffee shop'' []
      = Returned (assemble shell_with_marker content_card script_block)
    \<and> \<not> str_includes (assemble shell_with_marker content_card script_block) CONTENT_PLACEHOLDER
    \<and> assemble shell_with_marker content_card script_block
        = ''<html><body><div>X</div><script>AOS.init();</script></body></html>''"
    unfolding v[symmetric] by (rule t) (simp_all add: stage_first_try)
  then show ?thesis by metis
qed

lemma container_facts:
  "plain_template CONTAINER_OPEN" "last CONTAINER_OPEN \<noteq> CHR ''$''"
  "plain_template (CONTAINER_CLOSE @ BODY_END)"
  "opens_first CONTAINER_OPEN" "closes_last CONTAINER_OPEN" "opens_first CONTAINER_CLOSE"
  "\<not> str_includes CONTAINER_OPEN BODY_END" "\<not> str_includes CONTAINER_CLOSE BODY_END"
  "hd (CONTAINER_CLOSE @ BODY_END) = CHR ''<''"
  "plain_template BODY_END" "hd BODY_END = CHR ''<''"
  by code_simp+

lemma fallback_template:
  "plain_template c \<Longrightarrow> plain_template (CONTAINER_OPEN @ c @ CONTAINER_CLOSE @ BODY_END)"
proof -
  assume c: "plain_template c"
  have oc: "plain_template (CONTAINER_OPEN @ c)"
    by (rule plain_template_append[OF container_facts(1) c]) (simp add: container_facts(2))
  have "plain_template ((CONTAINER_OPEN @ c) @ (CONTAINER_CLOSE @ BODY_END))"
    by (rule plain_template_append[OF oc container_facts(3)]) (simp add: container_facts(9))
  then show ?thesis by simp
qed

lemma wrapped_content_has_no_body_end:
  assumes "\<not> sublist BODY_END a" "\<not> sublist BODY_END c"
  shows "\<not> sublist BODY_END (a @ CONTAINER_OPEN @ c @ CONTAINER_CLOSE)"
proof -
  have no: "\<not> sublist BODY_END CONTAINER_OPEN" and nc: "\<not> sublist BODY_END CONTAINER_CLOSE"
    using container_facts(7,8) by (simp_all add: str_includes_sublist)
  have "\<not> sublist BODY_END (CONTAINER_OPEN @ c)"
    using body_end_no_straddle[of c CONTAINER_OPEN] no assms(2) container_facts(5) by blast
  then have "\<not> sublist BODY_END ((CONTAINER_OPEN @ c) @ CONTAINER_CLOSE)"
    using body_end_no_straddle[of CONTAINER_CLOSE "CONTAINER_OPEN @ c"] nc container_facts(6) by blast
  moreover have "opens_first ((CONTAINER_OPEN @ c) @ CONTAINER_CLOSE)"
    using container_facts(4) by (simp add: opens_first_append del: append_assoc)
  ultimately have "\<not> sublist BODY_END (a @ (CONTAINER_OPEN @ c) @ CONTAINER_CLOSE)"
    using body_end_no_straddle[of "(CONTAINER_OPEN @ c) @ CONTAINER_CLOSE" a] assms(1) by blast
  then show ?thesis by simp
qed

lemma assemble_without_marker:
  assumes shell: "\<not> str_includes (clean_html shell) CONTENT_PLACEHOLDER"
    "clean_html shell = a @ BODY_END @ b" "\<not> sublist BODY_END a"
    and content: "plain_template (clean_html contentHtml)" "\<not> sublist BODY_END (clean_html contentHtml)"
  shows "assemble shell contentHtml script
      = a @ CONTAINER_OPEN @ clean_html contentHtml @ CONTAINER_CLOSE
        @ GetSubstitution BODY_END (a @ CONTAINER_OPEN @ clean_html contentHtml @ CONTAINER_CLOSE) b
            (clean_javascript script)
        @ BODY_END @ b"
proof -
  define x where "x = a @ CONTAINER_OPEN @ clean_html contentHtml @ CONTAINER_CLOSE"
  have sp: "split_first BODY_END (clean_html shell) = Some (a, b)"
    unfolding shell(2) using shell(3) by (rule first_occurrence[OF body_end_shape])
  have "replace (clean_html shell) BODY_END
          (CONTAINER_OPEN @ clean_html contentHtml @ CONTAINER_CLOSE @ BODY_END)
      = a @ (CONTAINER_OPEN @ clean_html contentHtml @ CONTAINER_CLOSE @ BODY_END) @ b"
    using sp fallback_template[OF content(1)] by (simp add: replace_plain)
  then have first: "replace (clean_html shell) BODY_END
          (CONTAINER_OPEN @ clean_html contentHtml @ CONTAINER_CLOSE @ BODY_END)
      = x @ BODY_END @ b"
    by (simp add: x_def)
  have "\<not> sublist BODY_END x"
    unfolding x_def using shell(3) content(2) by (rule wrapped_content_has_no_body_end)
  then have sp2: "split_first BODY_END (x @ BODY_END @ b) = Some (x, b)"
    by (rule first_occurrence[OF body_end_shape])
  have sub: "GetSubstitution BODY_END x b (clean_javascript script @ BODY_END)
      = GetSubstitution BODY_END x b (clean_javascript script) @ BODY_END"
    by (rule GetSubstitution_append[OF container_facts(10)]) (simp add: container_facts(11))
  have "assemble shell contentHtml script
      = replace (x @ BODY_END @ b) BODY_END (clean_javascript script @ BODY_END)"
    using shell(1) first by (simp add: assemble_def Let_def)
  also have "\<dots> = x @ GetSubstitution BODY_END x b (clean_javascript script) @ BODY_END @ b"
    using sp2 sub by (simp add: replace_def)
  finally show ?thesis by (simp add: x_def)
qed

text \<open>
  Claim C4 as stated fails: when the shell has neither the marker nor a closing
  \<open></body>\<close> tag in that spelling, both replacements leave it unchanged and the content
  and the script are dropped.
\<close>

theorem generateLessonPlan_fallback_counterexample:
  "generateLessonPlan (scripted shell_without_body_end content_card script_block) ''Coffee shop'' []
     = Returned ''<html><BODY><h1>Lesson</h1></BODY></html>''
   \<and> \<not> str_includes shell_without_body_end CONTENT_PLACEHOLDER
   \<and> clean_html content_card = ''<div>X</div>''
   \<and> \<not> str_includes ''<html><BODY><h1>Lesson</h1></BODY></html>'' ''<div>X</div>''"
proof -
  have a: "assemble shell_without_body_end content_card script_block
      = ''<html><BODY><h1>Lesson</h1></BODY></html>''"
    by code_simp
  have b: "\<not> str_includes shell_without_body_end CONTENT_PLACEHOLDER"
    by code_simp
  have c: "clean_html content_card = ''<div>X</div>''"
    by code_simp
  have d: "\<not> str_includes ''<html><BODY><h1>Lesson</h1></BODY></html>'' ''<div>X</div>''"
    by code_simp
  show ?thesis using scripted_run[of shell_without_body_end content_card script_block] a b c d
    by simp
qed

text \<open>
  Claim C4, amended. When the five stages return and the cleaned shell has no marker but
  has a closing \<open></body>\<close> tag, and the cleaned content is free of the replacement
  patterns \<open>$$\<close>, \<open>$&\<close>, \<open>$`\<close>, \<open>$'\<close> and of \<open></body>\<close>, the returned document holds
  the cleaned content, wrapped in the fallback container, before the script and the first
  closing body tag of the shell; nothing of the shell is changed.
\<close>

theorem generateLessonPlan_fallback:
  assumes "stage ai PROMPT_ARCHITECT
             (Text userInput # map (\<lambda>att. InlineData (mimeType att) (att_data att)) attachments)
           = Returned blueprint"
    "stage ai PROMPT_ASSET_MANAGER [Text blueprint] = Returned assets"
    "stage ai PROMPT_SHELL [Text ''Create shell for topic based on blueprint content.'']
       = Returned shell"
    "stage ai PROMPT_CONTENT [Text (blueprint_and_assets blueprint assets)] = Returned contentHtml"
    "stage ai PROMPT_LOGIC [Text (blueprint_and_assets blueprint assets)] = Returned script"
    and shell: "\<not> str_includes (clean_html shell) CONTENT_PLACEHOLDER"
      "clean_html shell = a @ ''</body>'' @ b" "\<not> str_includes a ''</body>''"
    and content: "plain_template (clean_html contentHtml)"
      "\<not> str_includes (clean_html contentHtml) ''</body>''"
  shows "generateLessonPlan ai userInput attachments = Returned (assemble shell contentHtml script)
    \<and> (\<exists>script'.
          assemble shell contentHtml script
            = a @ ''<div class=\"container py-5\"><div class=\"row\">'' @ clean_html contentHtml
              @ ''</div></div>'' @ script' @ ''</body>'' @ b
          \<and> (plain_template (clean_javascript script) \<longrightarrow> script' = clean_javascript script))"
proof -
  have run: "generateLessonPlan ai userInput attachments = Returned (assemble shell contentHtml script)"
    using assms(1-5) by (rule generateLessonPlan_returns)
  have na: "\<not> sublist BODY_END a" and nc: "\<not> sublist BODY_END (clean_html contentHtml)"
    using shell(3) content(2) by (simp_all add: str_includes_sublist BODY_END_def)
  have sh: "clean_html shell = a @ BODY_END @ b" using shell(2) by (simp add: BODY_END_def)
  define script' where
    "script' = GetSubstitution BODY_END (a @ CONTAINER_OPEN @ clean_html contentHtml @ CONTAINER_CLOSE) b
            (clean_javascript script)"
  have "assemble shell contentHtml script
      = a @ CONTAINER_OPEN @ clean_html contentHtml @ CONTAINER_CLOSE @ script' @ BODY_END @ b"
    unfolding script'_def using shell(1) sh na content(1) nc by (rule assemble_without_marker)
  then have eq: "assemble shell contentHtml script
            = a @ ''<div class=\"container py-5\"><div class=\"row\">'' @ clean_html contentHtml
              @ ''</div></div>'' @ script' @ ''</body>'' @ b"
    by (simp only: CONTAINER_OPEN_def CONTAINER_CLOSE_def BODY_END_def)
  have "plain_template (clean_javascript script) \<longrightarrow> script' = clean_javascript script"
    by (simp add: script'_def GetSubstitution_plain)
  then show ?thesis using run eq by blast
qed


theorem generateLessonPlan_fallback_witness:
  "generateLessonPlan (scripted shell_without_marker content_card script_block) ''Coffee shop'' []
     = Returned (''<html><body><h1>Lesson</h1>''
         @ ''<div class=\"container py-5\"><div class=\"row\">'' @ ''<div>X</div>'' @ ''</div></div>''
         @ ''<script>AOS.init();</script>'' @ ''</body>'' @ ''</html>'')"
proof -
  have h: "\<not> str_includes (clean_html shell_without_marker) CONTENT_PLACEHOLDER"
    "clean_html shell_without_marker = ''<html><body><h1>Lesson</h1>'' @ ''</body>'' @ ''</html>''"
    "\<not> str_includes ''<html><body><h1>Lesson</h1>'' ''</body>''"
    "plain_template (clean_html content_card)"
    "\<not> str_includes (clean_html content_card) ''</body>''"
    by code_simp+
  have c: "clean_html content_card = ''<div>X</div>''"
    and j: "clean_javascript script_block = ''<script>AOS.init();</script>''"
    and p: "plain_template (clean_javascript script_block)"
    by code_simp+
  have "generateLessonPlan (scripted shell_without_marker content_card script_block) ''Coffee shop'' []
      = Returned (assemble shell_without_marker content_card script_block)
    \<and> (\<exists>script'.
          assemble shell_without_marker content_card script_block
            = ''<html><body><h1>Lesson</h1>'' @ ''<div class=\"container py-5\"><div class=\"row\">''
              @ clean_html content_card @ ''</div></div>'' @ script' @ ''</body>'' @ ''</html>''
          \<and> (plain_template (clean_javascript script_block) \<longrightarrow> script' = clean_javascript script_block))"
    by (rule generateLessonPlan_fallback
          [of "scripted shell_without_marker content_card script_block" "''Coffee shop''" "[]"
              "''# Blueprint''" "''# Blueprint''" shell_without_marker content_card script_block
              "''<html><body><h1>Lesson</h1>''" "''</html>''", OF _ _ _ _ _ h])
       (simp_all add: stage_first_try)
  then show ?thesis using p unfolding c j by metis
qed

section \<open>Properties of the media normalizer\<close>























declare step.simps [simp del]





lemma run_events_append:
  "run_events fid selectedFile s (xs @ ys)
     = run_events fid selectedFile (run_events fid selectedFile s xs) ys"
  by (simp add: run_events_def)












end
